theory Spec2Isabelle
  imports Main "HOL-Library.Word"
begin

unbundle bit_operations_syntax

section \<open>The 39SF040 EEPROM programmer (eeprom_programmer.c)\<close>

text \<open>
  A shallow embedding of the protocol engine of \<^verbatim>\<open>eeprom_programmer.c\<close>: the address
  shifter, the bus read and write cycles, the unlock and erase command sequences and the
  chunked program and verify loops. Every C function that touches the pins becomes a
  function on the hardware state \<open>hw\<close>; the state carries the log of every call made
  to the pin driver, the display and the console, in the order the code makes them.
\<close>

type_synonym u8 = "8 word"
type_synonym u32 = "32 word"

subsection \<open>Constants of the source\<close>

definition DATA_PIN_NUMBER :: nat where "DATA_PIN_NUMBER = 2"
definition LATCH_PIN_NUMBER :: nat where "LATCH_PIN_NUMBER = 3"
definition CLOCK_PIN_NUMBER :: nat where "CLOCK_PIN_NUMBER = 4"
definition ADDRESS_LINES :: nat where "ADDRESS_LINES = 24"
definition MAX_EEPROM_ADDRESS_SPACE :: nat where "MAX_EEPROM_ADDRESS_SPACE = 524288"
definition WRITE_ENABLE_PIN :: nat where "WRITE_ENABLE_PIN = 28"
definition OUTPUT_ENABLE_PIN :: nat where "OUTPUT_ENABLE_PIN = 27"
definition CHIP_ENABLE_PIN :: nat where "CHIP_ENABLE_PIN = 26"
definition D0_PIN :: nat where "D0_PIN = 8"
definition D1_PIN :: nat where "D1_PIN = 9"
definition D2_PIN :: nat where "D2_PIN = 10"
definition D3_PIN :: nat where "D3_PIN = 11"
definition D4_PIN :: nat where "D4_PIN = 12"
definition D5_PIN :: nat where "D5_PIN = 13"
definition D6_PIN :: nat where "D6_PIN = 14"
definition D7_PIN :: nat where "D7_PIN = 15"
definition BUFFER_SIZE :: nat where "BUFFER_SIZE = 1024"

named_theorems pin_defs \<open>the pin numbers of the source\<close>

lemmas pin_numbers [pin_defs] =
  DATA_PIN_NUMBER_def LATCH_PIN_NUMBER_def CLOCK_PIN_NUMBER_def
  WRITE_ENABLE_PIN_def OUTPUT_ENABLE_PIN_def CHIP_ENABLE_PIN_def
  D0_PIN_def D1_PIN_def D2_PIN_def D3_PIN_def D4_PIN_def D5_PIN_def D6_PIN_def D7_PIN_def

subsection \<open>The hardware: pins, shift registers, chip\<close>

text \<open>
  One entry of the log per call to a collaborator: the Pico SDK's \<^verbatim>\<open>gpio_put\<close>,
  \<^verbatim>\<open>gpio_set_dir\<close> (\<open>True\<close> is \<^verbatim>\<open>GPIO_OUT\<close>), \<^verbatim>\<open>gpio_pull_down\<close>,
  \<^verbatim>\<open>gpio_get\<close>, \<^verbatim>\<open>sleep_us\<close>, \<^verbatim>\<open>sleep_ms\<close>, the source's own busy wait
  \<^verbatim>\<open>nop()\<close>, the five lines handed to the display, and the text handed to
  \<^verbatim>\<open>printf\<close>.
\<close>

datatype pin_op =
    Gpio_put nat bool
  | Gpio_set_dir nat bool
  | Gpio_pull_down nat
  | Gpio_get nat
  | Nop
  | Sleep_us nat
  | Sleep_ms nat
  | Oled_display "string list"
  | Printf string

text \<open>The command decoder of the chip: how much of a command sequence it has seen.\<close>

datatype cmd_state = Idle | Unlock1 | Unlock2 | Program | Erase1 | Erase2 | Erase3

text \<open>
  The hardware state: the output level and the direction (\<open>True\<close> is output) of every
  GPIO pin, the counter \<^verbatim>\<open>dummy\<close> of the source, the shift-register chain and its
  latched outputs (the address bus), the address the chip took when the write cycle in
  progress began, the chip's command decoder and contents, the write cycles the chip has
  seen, and the log of collaborator calls.
\<close>

record hw =
  level :: "nat \<Rightarrow> bool"
  dir :: "nat \<Rightarrow> bool"
  dummy :: u32
  sr :: "24 word"
  latched :: "24 word"
  chip_addr :: "24 word"
  cmd :: cmd_state
  mem :: "19 word \<Rightarrow> u8"
  bus_log :: "(24 word \<times> u8) list"
  trace :: "pin_op list"

text \<open>
  Modelled from the spec: the chain of three 74HC595 shift registers that feeds the address
  bus is hardware, not code. A rising clock edge takes the level of the data line into the
  chain and moves every older bit one place on; after 24 edges the first bit taken in sits
  at place 0, which drives address line A0, the next at place 1 (A1), and so on. A rising
  latch edge copies the chain to the parallel outputs.
\<close>

definition shift_in :: "bool \<Rightarrow> 24 word \<Rightarrow> 24 word" where
  "shift_in d r = drop_bit 1 r OR push_bit 23 (of_bool d)"

text \<open>
  Modelled from the spec: the eight data lines as the chip sees them during a write cycle.
  Line k is high when pin \<open>D0_PIN + k\<close> is an output that drives high; a pin that is an
  input is pulled down.
\<close>

definition data_line :: "hw \<Rightarrow> nat \<Rightarrow> bool" where
  "data_line s k = (dir s (D0_PIN + k) \<and> level s (D0_PIN + k))"

definition data_bus :: "hw \<Rightarrow> u8" where
  "data_bus s = horner_sum of_bool 2 (map (data_line s) [0..<8])"

text \<open>
  Modelled from the spec: the command decoder of the chip (spec 4.3). A bus write cycle
  with address \<open>a\<close> (the chip has the 19 lines A0..A18 of the 24) and data \<open>d\<close> advances
  the decoder; the unlock prefix 0x5555/0xAA, 0x2AAA/0x55, 0x5555/0xA0 arms a byte
  program, and the cycle that follows stores its byte at its address; the six-pair
  sequence ending 0x5555/0x10 erases the chip to 0xFF; a cycle that fits no sequence
  is ignored and the decoder starts over. Every cycle is appended to \<open>bus_log\<close>.
\<close>

fun next_cmd :: "cmd_state \<Rightarrow> 19 word \<Rightarrow> u8 \<Rightarrow> cmd_state" where
  "next_cmd Idle a d = (if a = 0x5555 \<and> d = 0xAA then Unlock1 else Idle)"
| "next_cmd Unlock1 a d = (if a = 0x2AAA \<and> d = 0x55 then Unlock2 else Idle)"
| "next_cmd Unlock2 a d = (if a = 0x5555 \<and> d = 0xA0 then Program
                           else if a = 0x5555 \<and> d = 0x80 then Erase1 else Idle)"
| "next_cmd Program a d = Idle"
| "next_cmd Erase1 a d = (if a = 0x5555 \<and> d = 0xAA then Erase2 else Idle)"
| "next_cmd Erase2 a d = (if a = 0x2AAA \<and> d = 0x55 then Erase3 else Idle)"
| "next_cmd Erase3 a d = Idle"

fun next_mem :: "cmd_state \<Rightarrow> 19 word \<Rightarrow> u8 \<Rightarrow> (19 word \<Rightarrow> u8) \<Rightarrow> 19 word \<Rightarrow> u8" where
  "next_mem Program a d m = m(a := d)"
| "next_mem Erase3 a d m = (if a = 0x5555 \<and> d = 0x10 then (\<lambda>_. 0xFF) else m)"
| "next_mem c a d m = m"

text \<open>One bus write cycle as the chip takes it.\<close>

definition chip_write :: "24 word \<Rightarrow> u8 \<Rightarrow> hw \<Rightarrow> hw" where
  "chip_write a d s =
     s\<lparr>bus_log := bus_log s @ [(a, d)],
       cmd := next_cmd (cmd s) (ucast a) d,
       mem := next_mem (cmd s) (ucast a) d (mem s)\<rparr>"

text \<open>A write cycle is in progress while both /CE and /WE are low.\<close>

definition write_strobe :: "hw \<Rightarrow> bool" where
  "write_strobe s = (\<not> level s WRITE_ENABLE_PIN \<and> \<not> level s CHIP_ENABLE_PIN)"

text \<open>
  Modelled from the spec: \<^verbatim>\<open>gpio_put\<close> of the Pico SDK (the pin driver's \<open>setLine\<close>),
  with what the hardware behind the pin does. The control and shift-register pins are
  outputs (\<^verbatim>\<open>setup()\<close> makes them so and nothing changes that). A rising edge on the
  clock pin shifts the data line into the chain, a rising edge on the latch pin latches
  the chain; the chip takes the address when a write cycle begins and the data, with the
  effect of the cycle, when it ends.
\<close>

definition gpio_put :: "nat \<Rightarrow> bool \<Rightarrow> hw \<Rightarrow> hw" where
  "gpio_put pin v s =
     (let s' = s\<lparr>level := (level s)(pin := v), trace := trace s @ [Gpio_put pin v]\<rparr>
      in if pin = CLOCK_PIN_NUMBER then
           (if \<not> level s CLOCK_PIN_NUMBER \<and> v
            then s'\<lparr>sr := shift_in (level s DATA_PIN_NUMBER) (sr s)\<rparr> else s')
         else if pin = LATCH_PIN_NUMBER then
           (if \<not> level s LATCH_PIN_NUMBER \<and> v then s'\<lparr>latched := sr s\<rparr> else s')
         else if pin = WRITE_ENABLE_PIN \<or> pin = CHIP_ENABLE_PIN then
           (if \<not> write_strobe s \<and> write_strobe s' then s'\<lparr>chip_addr := latched s\<rparr>
            else if write_strobe s \<and> \<not> write_strobe s'
              then chip_write (chip_addr s) (data_bus s) s'
            else s')
         else s')"

text \<open>
  Modelled from the spec: the other calls of the pin driver. \<^verbatim>\<open>gpio_set_dir\<close> sets the
  direction of a pin and \<^verbatim>\<open>gpio_get_dir\<close> reads it; \<^verbatim>\<open>gpio_pull_down\<close> is logged
  (an input that nothing drives reads low, see \<open>line_in\<close>).
\<close>

definition gpio_set_dir :: "nat \<Rightarrow> bool \<Rightarrow> hw \<Rightarrow> hw" where
  "gpio_set_dir pin out s =
     s\<lparr>dir := (dir s)(pin := out), trace := trace s @ [Gpio_set_dir pin out]\<rparr>"

definition gpio_get_dir :: "nat \<Rightarrow> hw \<Rightarrow> bool" where
  "gpio_get_dir pin s = dir s pin"

definition gpio_pull_down :: "nat \<Rightarrow> hw \<Rightarrow> hw" where
  "gpio_pull_down pin s = s\<lparr>trace := trace s @ [Gpio_pull_down pin]\<rparr>"

text \<open>
  Modelled from the spec: what a pin reads. An output reads its own level; a data pin
  that is an input reads the bit the chip drives while /CE and /OE are low and /WE is
  high, namely the bit of the byte stored at the latched address; anything else is
  pulled down.
\<close>

definition chip_drives :: "hw \<Rightarrow> bool" where
  "chip_drives s =
     (\<not> level s CHIP_ENABLE_PIN \<and> \<not> level s OUTPUT_ENABLE_PIN \<and> level s WRITE_ENABLE_PIN)"

definition line_in :: "nat \<Rightarrow> hw \<Rightarrow> bool" where
  "line_in pin s =
     (if dir s pin then level s pin
      else if chip_drives s \<and> D0_PIN \<le> pin \<and> pin \<le> D7_PIN
        then bit (mem s (ucast (latched s))) (pin - D0_PIN)
      else False)"

definition gpio_get :: "nat \<Rightarrow> hw \<Rightarrow> bool \<times> hw" where
  "gpio_get pin s = (line_in pin s, s\<lparr>trace := trace s @ [Gpio_get pin]\<rparr>)"

text \<open>
  Modelled from the spec: the delays of the SDK and \<^verbatim>\<open>printf\<close> change nothing on the
  pins; they are logged.
\<close>

definition sleep_us :: "nat \<Rightarrow> hw \<Rightarrow> hw" where
  "sleep_us n s = s\<lparr>trace := trace s @ [Sleep_us n]\<rparr>"

definition sleep_ms :: "nat \<Rightarrow> hw \<Rightarrow> hw" where
  "sleep_ms n s = s\<lparr>trace := trace s @ [Sleep_ms n]\<rparr>"

definition printf :: "string \<Rightarrow> hw \<Rightarrow> hw" where
  "printf msg s = s\<lparr>trace := trace s @ [Printf msg]\<rparr>"

subsection \<open>nop, shiftAddress\<close>

text \<open>
  \<^verbatim>\<open>nop()\<close> adds 1 to the global \<^verbatim>\<open>dummy\<close> and then 1 again 200 times; the
  counter is taken to wrap at 32 bits. It is the busy wait of the source: one \<open>Nop\<close> in
  the log.
\<close>

definition nop :: "hw \<Rightarrow> hw" where
  "nop s = s\<lparr>dummy := dummy s + 1 + 200, trace := trace s @ [Nop]\<rparr>"

function shiftAddress_loop :: "nat \<Rightarrow> u32 \<Rightarrow> hw \<Rightarrow> hw" where
  "shiftAddress_loop i addr s =
     (if i < ADDRESS_LINES then
        (let one = ((addr AND 0x01) \<noteq> 0);
             addr' = drop_bit 1 addr;
             s1 = (if one then gpio_put DATA_PIN_NUMBER True s
                   else gpio_put DATA_PIN_NUMBER False s);
             s2 = nop s1;
             s3 = gpio_put CLOCK_PIN_NUMBER True s2;
             s4 = nop s3;
             s5 = gpio_put CLOCK_PIN_NUMBER False s4;
             s6 = nop s5
         in shiftAddress_loop (i + 1) addr' s6)
      else s)"
  by pat_completeness auto
termination
  by (relation "measure (\<lambda>(i, addr, s). ADDRESS_LINES - i)") auto

declare shiftAddress_loop.simps [simp del]

definition shiftAddress :: "u32 \<Rightarrow> hw \<Rightarrow> hw" where
  "shiftAddress addr s =
     (let s1 = gpio_put LATCH_PIN_NUMBER False s;
          s2 = gpio_put DATA_PIN_NUMBER False s1;
          s3 = gpio_put CLOCK_PIN_NUMBER False s2;
          s4 = shiftAddress_loop 0 addr s3;
          s5 = gpio_put LATCH_PIN_NUMBER True s4;
          s6 = nop s5;
          s7 = gpio_put LATCH_PIN_NUMBER False s6
      in nop s7)"

subsection \<open>Display and text formatting\<close>

text \<open>
  \<^verbatim>\<open>oledDisplayMessages\<close> clears the display, draws its five strings and shows them
  through the ssd1306 library (the status sink of spec 6): one entry of the log.
\<close>

definition oledDisplayMessages ::
  "string \<Rightarrow> string \<Rightarrow> string \<Rightarrow> string \<Rightarrow> string \<Rightarrow> hw \<Rightarrow> hw" where
  "oledDisplayMessages message1 message2 message3 message4 message5 s =
     s\<lparr>trace := trace s @ [Oled_display [message1, message2, message3, message4, message5]]\<rparr>"

definition hex_char :: "nat \<Rightarrow> char" where
  "hex_char d = ''0123456789ABCDEF'' ! (d mod 16)"

function hex_digits :: "nat \<Rightarrow> string" where
  "hex_digits n = (if n < 16 then [hex_char n] else hex_digits (n div 16) @ [hex_char (n mod 16)])"
  by pat_completeness auto
termination
  by (relation "measure id") auto

declare hex_digits.simps [simp del]

text \<open>\<^verbatim>\<open>%0wX\<close>: upper-case hexadecimal, padded with zeros to at least \<open>w\<close> digits.\<close>

definition format_X :: "nat \<Rightarrow> nat \<Rightarrow> string" where
  "format_X w n = replicate (w - length (hex_digits n)) (CHR ''0'') @ hex_digits n"

function dec_digits :: "nat \<Rightarrow> string" where
  "dec_digits n = (if n < 10 then [hex_char n] else dec_digits (n div 10) @ [hex_char (n mod 10)])"
  by pat_completeness auto
termination
  by (relation "measure id") auto

declare dec_digits.simps [simp del]

text \<open>\<^verbatim>\<open>%d\<close> of a 32-bit \<^verbatim>\<open>int\<close>.\<close>

definition format_d :: "u32 \<Rightarrow> string" where
  "format_d x = (if sint x < 0 then CHR ''-'' # dec_digits (nat (- sint x))
                 else dec_digits (nat (sint x)))"

subsection \<open>Bus controller: setDataPins, setReadMode, setWriteMode, write, EEPROM_readByte\<close>

definition data_pins :: "nat list" where
  "data_pins = [D0_PIN, D1_PIN, D2_PIN, D3_PIN, D4_PIN, D5_PIN, D6_PIN, D7_PIN]"

fun setDataPins_loop :: "nat list \<Rightarrow> u8 \<Rightarrow> hw \<Rightarrow> hw" where
  "setDataPins_loop [] byteOfData s = s"
| "setDataPins_loop (pin # pins) byteOfData s =
     (let isOne = ((byteOfData AND 1) \<noteq> 0);
          byteOfData' = drop_bit 1 byteOfData
      in setDataPins_loop pins byteOfData' (gpio_put pin isOne s))"

definition setDataPins :: "u8 \<Rightarrow> hw \<Rightarrow> hw" where
  "setDataPins byteOfData s = setDataPins_loop data_pins byteOfData s"

fun setReadMode_loop :: "nat list \<Rightarrow> hw \<Rightarrow> hw" where
  "setReadMode_loop [] s = s"
| "setReadMode_loop (pin # pins) s =
     (let s1 = (if gpio_get_dir pin s then sleep_ms 1 (gpio_put pin False s) else s);
          s2 = gpio_set_dir pin False s1;
          s3 = gpio_pull_down pin s2;
          s4 = sleep_ms 1 s3
      in setReadMode_loop pins s4)"

definition setReadMode :: "hw \<Rightarrow> hw" where
  "setReadMode s =
     (let s1 = setReadMode_loop data_pins s;
          s2 = gpio_put WRITE_ENABLE_PIN True s1;
          s3 = gpio_put OUTPUT_ENABLE_PIN False s2;
          s4 = gpio_put CHIP_ENABLE_PIN False s3
      in sleep_ms 1 s4)"

fun setWriteMode_loop :: "nat list \<Rightarrow> hw \<Rightarrow> hw" where
  "setWriteMode_loop [] s = s"
| "setWriteMode_loop (pin # pins) s =
     setWriteMode_loop pins (gpio_put pin False (gpio_set_dir pin True s))"

definition setWriteMode :: "hw \<Rightarrow> hw" where
  "setWriteMode s =
     (let s1 = setWriteMode_loop data_pins s;
          s2 = gpio_put OUTPUT_ENABLE_PIN True s1;
          s3 = gpio_put CHIP_ENABLE_PIN True s2;
          s4 = gpio_put WRITE_ENABLE_PIN True s3
      in sleep_ms 1 s4)"

text \<open>\<^verbatim>\<open>write(address, data)\<close> of the source.\<close>

definition write_bus :: "u32 \<Rightarrow> u8 \<Rightarrow> hw \<Rightarrow> hw" where
  "write_bus address data s =
     (let s1 = gpio_put OUTPUT_ENABLE_PIN True s;
          s2 = gpio_put WRITE_ENABLE_PIN True s1;
          s3 = gpio_put CHIP_ENABLE_PIN False s2;
          s4 = nop s3;
          s5 = shiftAddress address s4;
          s6 = setDataPins data s5;
          s7 = nop s6;
          s8 = gpio_put WRITE_ENABLE_PIN False s7;
          s9 = sleep_us 1 s8;
          s10 = gpio_put WRITE_ENABLE_PIN True s9;
          s11 = sleep_us 1 s10;
          s12 = gpio_put CHIP_ENABLE_PIN True s11
      in sleep_us 25 s12)"

fun EEPROM_readByte_loop :: "nat list \<Rightarrow> u8 \<Rightarrow> hw \<Rightarrow> u8 \<times> hw" where
  "EEPROM_readByte_loop [] output s = (output, s)"
| "EEPROM_readByte_loop (pin # pins) output s =
     (case gpio_get pin s of
        (currentBitState, s') \<Rightarrow>
          (let currentBit = (if currentBitState then 1 else 0)
           in EEPROM_readByte_loop pins (push_bit 1 output OR currentBit) s'))"

definition EEPROM_readByte :: "u32 \<Rightarrow> hw \<Rightarrow> u8 \<times> hw" where
  "EEPROM_readByte address s =
     (let output = 0x0;
          s1 = shiftAddress address s;
          s2 = nop s1
      in EEPROM_readByte_loop (rev data_pins) output s2)"

subsection \<open>Command sequencer: EEPROM_writeByte, EEPROM_chipErase; handleByteMismatch\<close>

text \<open>
  The three \<^verbatim>\<open>sprintf\<close> calls append the formatted value to the label the buffer
  already holds; the fourth joins the three lines for \<^verbatim>\<open>printf\<close>.
\<close>

definition handleByteMismatch :: "u32 \<Rightarrow> u8 \<Rightarrow> u8 \<Rightarrow> hw \<Rightarrow> hw" where
  "handleByteMismatch address expectedData actualData s =
     (let message1 = ''Address: '' @ '' 0x'' @ format_X 5 (unat address);
          message2 = ''Expected: '' @ '' 0x'' @ format_X 2 (unat expectedData);
          message3 = ''Actual: '' @ '' 0x'' @ format_X 2 (unat actualData);
          s1 = oledDisplayMessages ''Error! Byte mismatch'' message1 message2 message3 [] s;
          bigMessage = message1 @ '' '' @ message2 @ '' '' @ message3 @ '' '' @ [CHR 0x0A];
          s2 = printf bigMessage s1
      in sleep_ms 2000 s2)"

definition EEPROM_writeByte :: "u32 \<Rightarrow> u8 \<Rightarrow> hw \<Rightarrow> hw" where
  "EEPROM_writeByte address data s =
     (let s1 = write_bus 0x5555 0xAA s;
          s2 = write_bus 0x2AAA 0x55 s1;
          s3 = write_bus 0x5555 0xA0 s2
      in write_bus address data s3)"

definition EEPROM_chipErase :: "hw \<Rightarrow> hw" where
  "EEPROM_chipErase s =
     (let s0 = oledDisplayMessages ''Erasing'' ''EEPROM'' ''now...'' [] [] s;
          s1 = setWriteMode s0;
          s2 = write_bus 0x5555 0xAA s1;
          s3 = write_bus 0x2AAA 0x55 s2;
          s4 = write_bus 0x5555 0x80 s3;
          s5 = write_bus 0x5555 0xAA s4;
          s6 = write_bus 0x2AAA 0x55 s5;
          s7 = write_bus 0x5555 0x10 s6;
          s8 = printf (''Chip erase complete!'' @ [CHR 0x0A]) s7;
          s9 = oledDisplayMessages ''EEPROM'' ''erase'' ''complete!'' ''Waiting'' ''1 second.'' s8
      in sleep_ms 1000 s9)"

subsection \<open>The source stream\<close>

text \<open>
  Modelled from the spec: the file and \<^verbatim>\<open>f_read\<close> belong to the FatFs library (the
  source stream of spec 6). A file is its bytes, the read position, the sticky error
  of the file object, and the number of \<^verbatim>\<open>f_read\<close> calls made on it. \<^verbatim>\<open>f_read\<close>
  hands out up to \<open>btr\<close> bytes from the read position and moves it on; on a file in
  error it returns the error and no bytes. The buffer is \<^verbatim>\<open>char[]\<close>, and \<^verbatim>\<open>char\<close>
  is unsigned on the ARM target, so a buffer element is a byte 0..255.
\<close>

datatype FRESULT = FR_OK | FR_DISK_ERR | FR_INT_ERR | FR_INVALID_OBJECT | FR_TIMEOUT

record FIL =
  fdata :: "u8 list"
  fptr :: nat
  err :: FRESULT
  f_read_calls :: nat

definition f_read :: "FIL \<Rightarrow> nat \<Rightarrow> FRESULT \<times> u8 list \<times> FIL" where
  "f_read fil btr =
     (let fil' = fil\<lparr>f_read_calls := f_read_calls fil + 1\<rparr>
      in if err fil \<noteq> FR_OK then (err fil, [], fil')
         else (let buffer = take btr (drop (fptr fil) (fdata fil))
               in (FR_OK, buffer, fil'\<lparr>fptr := fptr fil + length buffer\<rparr>)))"

text \<open>A stream just opened on the bytes \<open>S\<close>, as \<^verbatim>\<open>SD_openFile\<close> leaves it on success.\<close>

definition opened :: "u8 list \<Rightarrow> FIL" where
  "opened S = \<lparr>fdata = S, fptr = 0, err = FR_OK, f_read_calls = 0\<rparr>"

subsection \<open>Program and verify engines\<close>

text \<open>
  The inner \<^verbatim>\<open>for\<close> loops run over \<^verbatim>\<open>buffer[0 .. numBytesRead - 1]\<close>; the model
  recurses over those bytes. The functions return the locals the C code shows on the
  display (\<^verbatim>\<open>address\<close>, \<^verbatim>\<open>errors\<close>) together with the file and the hardware.
\<close>

fun write_buffer :: "u8 list \<Rightarrow> u32 \<Rightarrow> hw \<Rightarrow> u32 \<times> hw" where
  "write_buffer [] address s = (address, s)"
| "write_buffer (b # buffer) address s =
     write_buffer buffer (address + 1) (EEPROM_writeByte address b s)"

function WriteCurrentFile_loop :: "FIL \<Rightarrow> u32 \<Rightarrow> hw \<Rightarrow> u32 \<times> FIL \<times> hw" where
  "WriteCurrentFile_loop fil address s =
     (case f_read fil BUFFER_SIZE of
        (result, buffer, fil') \<Rightarrow>
          if result \<noteq> FR_OK then (address, fil', s)
          else (case write_buffer buffer address s of
                  (address', s') \<Rightarrow>
                    if length buffer < BUFFER_SIZE then (address', fil', s')
                    else WriteCurrentFile_loop fil' address' s'))"
  by pat_completeness auto
termination
  by (relation "measure (\<lambda>(fil, address, s). length (fdata fil) - fptr fil)")
     (auto simp add: f_read_def BUFFER_SIZE_def Let_def split: if_splits)

declare WriteCurrentFile_loop.simps [simp del]

definition EEPROM_WriteCurrentFile :: "FIL \<Rightarrow> hw \<Rightarrow> u32 \<times> FIL \<times> hw" where
  "EEPROM_WriteCurrentFile fil s =
     (let s1 = oledDisplayMessages ''Writing File'' ''to EEPROM'' ''now...'' [] [] s;
          s2 = setWriteMode s1
      in case WriteCurrentFile_loop fil 0 s2 of
           (address, fil', s3) \<Rightarrow>
             (let stringTwo = ''Addrs: '' @ '' 0x'' @ format_X 5 (unat address);
                  s4 = oledDisplayMessages ''Done writing EEPROM!'' ''number of'' stringTwo
                         [] [] s3
              in (address, fil', sleep_ms 5000 s4)))"

fun verify_buffer :: "u8 list \<Rightarrow> u32 \<Rightarrow> u32 \<Rightarrow> hw \<Rightarrow> u32 \<times> u32 \<times> hw" where
  "verify_buffer [] address errors s = (address, errors, s)"
| "verify_buffer (b # buffer) address errors s =
     (case EEPROM_readByte address s of
        (currentByte, s1) \<Rightarrow>
          if currentByte \<noteq> b
          then verify_buffer buffer (address + 1) (errors + 1)
                 (handleByteMismatch address b currentByte s1)
          else verify_buffer buffer (address + 1) errors s1)"

function ReadAndVerify_loop ::
  "FIL \<Rightarrow> u32 \<Rightarrow> u32 \<Rightarrow> hw \<Rightarrow> u32 \<times> u32 \<times> FIL \<times> hw" where
  "ReadAndVerify_loop fil address errors s =
     (case f_read fil BUFFER_SIZE of
        (result, buffer, fil') \<Rightarrow>
          if result \<noteq> FR_OK then (address, errors, fil', s)
          else (case verify_buffer buffer address errors s of
                  (address', errors', s') \<Rightarrow>
                    if length buffer < BUFFER_SIZE then (address', errors', fil', s')
                    else ReadAndVerify_loop fil' address' errors' s'))"
  by pat_completeness auto
termination
  by (relation "measure (\<lambda>(fil, address, errors, s). length (fdata fil) - fptr fil)")
     (auto simp add: f_read_def BUFFER_SIZE_def Let_def split: if_splits)

declare ReadAndVerify_loop.simps [simp del]

definition verify_report :: "u32 \<Rightarrow> u32 \<Rightarrow> hw \<Rightarrow> hw" where
  "verify_report address errors s =
     (let stringTwo = ''Addrs: '' @ '' 0x'' @ format_X 5 (unat address);
          stringThree = ''Num errors: '' @ '' '' @ format_d errors
      in oledDisplayMessages ''Done reading EEPROM!'' stringTwo stringThree [] [] s)"

definition EEPROM_ReadAndVerify :: "FIL \<Rightarrow> hw \<Rightarrow> u32 \<times> u32 \<times> FIL \<times> hw" where
  "EEPROM_ReadAndVerify fil s =
     (let s1 = oledDisplayMessages ''Reading file'' ''from EEPROM'' ''now...'' [] [] s;
          s2 = setReadMode s1
      in case ReadAndVerify_loop fil 0 0 s2 of
           (address, errors, fil', s3) \<Rightarrow>
             (address, errors, fil', verify_report address errors s3))"

function VerifyErased_loop :: "nat \<Rightarrow> u32 \<Rightarrow> u32 \<Rightarrow> hw \<Rightarrow> u32 \<times> u32 \<times> hw" where
  "VerifyErased_loop i address errors s =
     (if i < MAX_EEPROM_ADDRESS_SPACE then
        (case EEPROM_readByte address s of
           (currentByte, s1) \<Rightarrow>
             if currentByte \<noteq> 0xFF
             then VerifyErased_loop (i + 1) (address + 1) (errors + 1)
                    (handleByteMismatch address 0xFF currentByte s1)
             else VerifyErased_loop (i + 1) (address + 1) errors s1)
      else (address, errors, s))"
  by pat_completeness auto
termination
  by (relation "measure (\<lambda>(i, address, errors, s). MAX_EEPROM_ADDRESS_SPACE - i)") auto

declare VerifyErased_loop.simps [simp del]

definition EEPROM_VerifyErased :: "hw \<Rightarrow> u32 \<times> u32 \<times> hw" where
  "EEPROM_VerifyErased s =
     (let s1 = oledDisplayMessages ''Verifying'' ''EEPROM is'' ''erased now...'' [] [] s;
          s2 = setReadMode s1
      in case VerifyErased_loop 0 0 0 s2 of
           (address, errors, s3) \<Rightarrow> (address, errors, verify_report address errors s3))"

subsection \<open>The pin sequences, written out\<close>

text \<open>
  What the specification says each operation puts on the pins, as plain lists, to compare
  with what the functions above log. One address bit: set the data line, pulse the clock.
\<close>

definition clock_sequence :: "bool \<Rightarrow> pin_op list" where
  "clock_sequence b =
     [Gpio_put DATA_PIN_NUMBER b, Nop, Gpio_put CLOCK_PIN_NUMBER True, Nop,
      Gpio_put CLOCK_PIN_NUMBER False, Nop]"

text \<open>The bits of an address in the order they are shifted: bit 0 first.\<close>

definition address_bits :: "u32 \<Rightarrow> bool list" where
  "address_bits addr = map (bit addr) [0..<ADDRESS_LINES]"

text \<open>
  An address: the three lines low, then the address bits, one per clock pulse, then one
  pulse on the latch line.
\<close>

definition shift_sequence :: "u32 \<Rightarrow> pin_op list" where
  "shift_sequence addr =
     [Gpio_put LATCH_PIN_NUMBER False, Gpio_put DATA_PIN_NUMBER False,
      Gpio_put CLOCK_PIN_NUMBER False]
     @ concat (map clock_sequence (address_bits addr))
     @ [Gpio_put LATCH_PIN_NUMBER True, Nop, Gpio_put LATCH_PIN_NUMBER False, Nop]"

definition data_sequence :: "u8 \<Rightarrow> pin_op list" where
  "data_sequence d = map (\<lambda>k. Gpio_put (D0_PIN + k) (bit d k)) [0..<8]"

text \<open>Entering write mode: the data pins become outputs driven low, the control lines idle.\<close>

definition write_mode_sequence :: "pin_op list" where
  "write_mode_sequence =
     concat (map (\<lambda>k. [Gpio_set_dir (D0_PIN + k) True, Gpio_put (D0_PIN + k) False]) [0..<8])
     @ [Gpio_put OUTPUT_ENABLE_PIN True, Gpio_put CHIP_ENABLE_PIN True,
        Gpio_put WRITE_ENABLE_PIN True, Sleep_ms 1]"

text \<open>One bus write cycle (spec 4.2).\<close>

definition write_sequence :: "u32 \<Rightarrow> u8 \<Rightarrow> pin_op list" where
  "write_sequence a d =
     [Gpio_put OUTPUT_ENABLE_PIN True, Gpio_put WRITE_ENABLE_PIN True,
      Gpio_put CHIP_ENABLE_PIN False, Nop]
     @ shift_sequence a @ data_sequence d
     @ [Nop, Gpio_put WRITE_ENABLE_PIN False, Sleep_us 1, Gpio_put WRITE_ENABLE_PIN True,
        Sleep_us 1, Gpio_put CHIP_ENABLE_PIN True, Sleep_us 25]"

text \<open>One bus read: the address, a settle delay, the eight data lines from D7 down to D0.\<close>

definition read_sequence :: "u32 \<Rightarrow> pin_op list" where
  "read_sequence a = shift_sequence a @ [Nop] @ map (\<lambda>k. Gpio_get (D7_PIN - k)) [0..<8]"

text \<open>The report of one mismatch: address, expected byte, actual byte, then a 2 s pause.\<close>

definition mismatch_sequence :: "u32 \<Rightarrow> u8 \<Rightarrow> u8 \<Rightarrow> pin_op list" where
  "mismatch_sequence a expected actual =
     [Oled_display [''Error! Byte mismatch'',
                    ''Address:  0x'' @ format_X 5 (unat a),
                    ''Expected:  0x'' @ format_X 2 (unat expected),
                    ''Actual:  0x'' @ format_X 2 (unat actual), []],
      Printf (''Address:  0x'' @ format_X 5 (unat a) @ '' Expected:  0x''
              @ format_X 2 (unat expected) @ '' Actual:  0x'' @ format_X 2 (unat actual)
              @ '' '' @ [CHR 0x0A]),
      Sleep_ms 2000]"

text \<open>The check of one byte at cursor \<open>a\<close> against \<open>expected\<close> when the chip holds \<open>actual\<close>.\<close>

definition verify_sequence :: "u32 \<Rightarrow> u8 \<Rightarrow> u8 \<Rightarrow> pin_op list" where
  "verify_sequence a expected actual =
     read_sequence a @ (if actual \<noteq> expected then mismatch_sequence a expected actual else [])"

subsection \<open>Bus modes, waits, a state to start from\<close>

text \<open>What \<^verbatim>\<open>setWriteMode\<close> and \<^verbatim>\<open>setReadMode\<close> establish.\<close>

definition write_mode :: "hw \<Rightarrow> bool" where
  "write_mode s =
     (list_all (dir s) data_pins \<and> level s OUTPUT_ENABLE_PIN \<and> level s CHIP_ENABLE_PIN
      \<and> level s WRITE_ENABLE_PIN)"

definition read_mode :: "hw \<Rightarrow> bool" where
  "read_mode s =
     (list_all (\<lambda>p. \<not> dir s p) data_pins \<and> level s WRITE_ENABLE_PIN
      \<and> \<not> level s OUTPUT_ENABLE_PIN \<and> \<not> level s CHIP_ENABLE_PIN)"

text \<open>
  The time, in microseconds, that a log spends in \<^verbatim>\<open>sleep_ms\<close> and \<^verbatim>\<open>sleep_us\<close> after
  its last access to a pin; \<^verbatim>\<open>nop()\<close> counts for nothing.
\<close>

fun is_pin_access :: "pin_op \<Rightarrow> bool" where
  "is_pin_access (Gpio_put p v) = True"
| "is_pin_access (Gpio_set_dir p v) = True"
| "is_pin_access (Gpio_pull_down p) = True"
| "is_pin_access (Gpio_get p) = True"
| "is_pin_access op = False"

fun delay_us :: "pin_op \<Rightarrow> nat" where
  "delay_us (Sleep_us n) = n"
| "delay_us (Sleep_ms n) = 1000 * n"
| "delay_us op = 0"

definition trailing_wait_us :: "pin_op list \<Rightarrow> nat" where
  "trailing_wait_us ops = sum_list (map delay_us (takeWhile (\<lambda>op. \<not> is_pin_access op) (rev ops)))"

text \<open>
  The pins as \<^verbatim>\<open>setup()\<close> leaves them (/WE and /OE high, /CE low, the data pins inputs)
  on an erased chip, with empty logs.
\<close>

definition hw_after_setup :: hw where
  "hw_after_setup =
     \<lparr>level = (\<lambda>p. p = WRITE_ENABLE_PIN \<or> p = OUTPUT_ENABLE_PIN),
      dir = (\<lambda>p. p \<notin> set data_pins),
      dummy = 0, sr = 0, latched = 0, chip_addr = 0, cmd = Idle,
      mem = (\<lambda>_. 0xFF), bus_log = [], trace = []\<rparr>"

text \<open>One address bit of \<^verbatim>\<open>shiftAddress\<close>: the body of its loop.\<close>

definition clock_bit :: "bool \<Rightarrow> hw \<Rightarrow> hw" where
  "clock_bit b s =
     nop (gpio_put CLOCK_PIN_NUMBER False (nop (gpio_put CLOCK_PIN_NUMBER True
       (nop (gpio_put DATA_PIN_NUMBER b s)))))"

text \<open>The pin levels after a bus write of \<open>d\<close> to \<open>a\<close>.\<close>

definition bus_levels :: "u32 \<Rightarrow> u8 \<Rightarrow> (nat \<Rightarrow> bool) \<Rightarrow> nat \<Rightarrow> bool" where
  "bus_levels a d l p =
     (if D0_PIN \<le> p \<and> p \<le> D7_PIN then bit d (p - D0_PIN)
      else if p = DATA_PIN_NUMBER then bit a 23
      else if p = LATCH_PIN_NUMBER \<or> p = CLOCK_PIN_NUMBER then False
      else if p = OUTPUT_ENABLE_PIN \<or> p = WRITE_ENABLE_PIN \<or> p = CHIP_ENABLE_PIN then True
      else l p)"

subsection \<open>What the loops put on the bus and find on the chip\<close>

text \<open>
  The four bus writes of one unlocked byte write, as the address and data lines carry
  them, and their pin sequences; the chip contents after the bytes \<open>bs\<close> have been
  stored from cursor \<open>a\<close> on; the positions at which the chip contents \<open>m\<close> differ
  from the bytes \<open>bs\<close> read from cursor \<open>a\<close> on.
\<close>

definition unlock_write :: "u32 \<Rightarrow> u8 \<Rightarrow> (24 word \<times> u8) list" where
  "unlock_write a d = [(0x5555, 0xAA), (0x2AAA, 0x55), (0x5555, 0xA0), (ucast a, d)]"

definition unlock_write_sequence :: "u32 \<Rightarrow> u8 \<Rightarrow> pin_op list" where
  "unlock_write_sequence a d =
     write_sequence 0x5555 0xAA @ write_sequence 0x2AAA 0x55 @ write_sequence 0x5555 0xA0
     @ write_sequence a d"

primrec programmed :: "u8 list \<Rightarrow> u32 \<Rightarrow> (19 word \<Rightarrow> u8) \<Rightarrow> 19 word \<Rightarrow> u8" where
  "programmed [] a m = m"
| "programmed (b # bs) a m = programmed bs (a + 1) (m(ucast a := b))"

definition mismatches :: "(19 word \<Rightarrow> u8) \<Rightarrow> u32 \<Rightarrow> u8 list \<Rightarrow> nat list" where
  "mismatches m a bs = filter (\<lambda>i. m (ucast (a + of_nat i)) \<noteq> bs ! i) [0..<length bs]"

text \<open>
  A chip that holds the bytes 0x00, 0xFF, 0x3C, 0x3C, 0x01 at addresses 0 to 4, but with the
  byte at address 2 read back as 0x3D.
\<close>

definition corrupted_chip :: hw where
  "corrupted_chip =
     hw_after_setup\<lparr>mem := (\<lambda>a. if a = 0 then 0x00 else if a = 1 then 0xFF
                                else if a = 2 then 0x3D else if a = 3 then 0x3C
                                else if a = 4 then 0x01 else 0xFF)\<rparr>"

section \<open>Proofs\<close>

subsection \<open>The pin driver, field by field\<close>

lemma trace_gpio_put [simp]: "trace (gpio_put pin v s) = trace s @ [Gpio_put pin v]"
  by (simp add: gpio_put_def chip_write_def Let_def)

lemma level_gpio_put [simp]: "level (gpio_put pin v s) = (level s)(pin := v)"
  by (simp add: gpio_put_def chip_write_def Let_def)

lemma dir_gpio_put [simp]: "dir (gpio_put pin v s) = dir s"
  by (simp add: gpio_put_def chip_write_def Let_def)

lemma gpio_put_plain:
  "pin \<noteq> CLOCK_PIN_NUMBER \<Longrightarrow> pin \<noteq> LATCH_PIN_NUMBER \<Longrightarrow> pin \<noteq> WRITE_ENABLE_PIN \<Longrightarrow>
   pin \<noteq> CHIP_ENABLE_PIN \<Longrightarrow>
   gpio_put pin v s = s\<lparr>level := (level s)(pin := v), trace := trace s @ [Gpio_put pin v]\<rparr>"
  by (simp add: gpio_put_def)

lemma and_one_neq_0: "((w :: 'a::len word) AND 1 \<noteq> 0) = bit w 0"
  by (simp add: and_one_eq bit_0 mod_2_eq_odd)

lemma put_if: "(if b then gpio_put p True s else gpio_put p False s) = gpio_put p b s"
  by simp

subsection \<open>shiftAddress\<close>

lemma clock_bit_eq:
  "\<not> level s CLOCK_PIN_NUMBER \<Longrightarrow>
   clock_bit b s = s\<lparr>level := (level s)(DATA_PIN_NUMBER := b, CLOCK_PIN_NUMBER := False),
                     dummy := dummy s + 603,
                     sr := shift_in b (sr s),
                     trace := trace s @ clock_sequence b\<rparr>"
  by (simp add: clock_bit_def clock_sequence_def gpio_put_def nop_def pin_defs Let_def)

lemma loop_foldl:
  "shiftAddress_loop i addr s =
     foldl (\<lambda>s b. clock_bit b s) s (map (bit addr) [0..<ADDRESS_LINES - i])"
proof (induction i addr s rule: shiftAddress_loop.induct)
  case (1 i addr s)
  show ?case
  proof (cases "i < ADDRESS_LINES")
    case False
    then show ?thesis by (simp add: shiftAddress_loop.simps [of i])
  next
    case True
    then obtain n where n: "ADDRESS_LINES - i = Suc n" "ADDRESS_LINES - (i + 1) = n"
      by (cases "ADDRESS_LINES - i") auto
    have m: "map (bit addr) [0..<Suc n] = bit addr 0 # map (bit (drop_bit 1 addr)) [0..<n]"
      by (simp add: map_upt_Suc bit_drop_bit_eq del: upt_Suc)
    have "shiftAddress_loop i addr s =
          shiftAddress_loop (i + 1) (drop_bit 1 addr) (clock_bit (bit addr 0) s)"
      using True
      by (subst shiftAddress_loop.simps) (simp add: Let_def and_one_neq_0 clock_bit_def put_if)
    also have "\<dots> = foldl (\<lambda>s b. clock_bit b s) (clock_bit (bit addr 0) s)
                      (map (bit (drop_bit 1 addr)) [0..<n])"
      using "1.IH" [OF True refl refl refl refl refl refl refl refl] n
      by (simp add: and_one_neq_0 clock_bit_def put_if)
    finally show ?thesis by (simp add: n m del: upt_Suc)
  qed
qed

lemma bit_shift_in:
  "bit (shift_in d r) j = (j < 24 \<and> (if j < 23 then bit r (Suc j) else d))"
  by (auto simp add: shift_in_def bit_simps dest: bit_imp_le_length)

lemma bit_shift_all:
  "bit (foldl (\<lambda>r b. shift_in b r) r bs) k =
     (k < 24 \<and> (if k + length bs < 24 then bit r (k + length bs)
                else bs ! (k + length bs - 24)))"
proof (induction bs arbitrary: r)
  case Nil
  then show ?case by (auto dest: bit_imp_le_length)
next
  case (Cons b bs)
  then show ?case by (auto simp add: bit_shift_in nth_Cons')
qed

lemma shift_all_addr:
  "foldl (\<lambda>r b. shift_in b r) r (map (bit (addr :: u32)) [0..<24]) = ucast addr"
  by (rule bit_word_eqI) (auto simp add: bit_shift_all bit_simps)

lemma foldl_clock_bit:
  "\<not> level s CLOCK_PIN_NUMBER \<Longrightarrow>
   foldl (\<lambda>s b. clock_bit b s) s bs =
     s\<lparr>level := (if bs = [] then level s
                  else (level s)(DATA_PIN_NUMBER := last bs, CLOCK_PIN_NUMBER := False)),
       dummy := dummy s + of_nat (603 * length bs),
       sr := foldl (\<lambda>r b. shift_in b r) (sr s) bs,
       trace := trace s @ concat (map clock_sequence bs)\<rparr>"
proof (induction bs arbitrary: s)
  case Nil
  then show ?case by simp
next
  case (Cons b bs)
  have c: "\<not> level (clock_bit b s) CLOCK_PIN_NUMBER"
    using Cons.prems by (simp add: clock_bit_eq)
  have "foldl (\<lambda>s b. clock_bit b s) s (b # bs) = foldl (\<lambda>s b. clock_bit b s) (clock_bit b s) bs"
    by simp
  also note Cons.IH [OF c]
  finally show ?case
    using Cons.prems
    by (cases "bs = []") (auto simp add: clock_bit_eq pin_defs algebra_simps fun_eq_iff)
qed

lemma shiftAddress_eq:
  "shiftAddress addr s =
     s\<lparr>level := (level s)(LATCH_PIN_NUMBER := False, DATA_PIN_NUMBER := bit addr 23,
                          CLOCK_PIN_NUMBER := False),
       dummy := dummy s + 14874,
       sr := ucast addr,
       latched := ucast addr,
       trace := trace s @ shift_sequence addr\<rparr>"
proof -
  let ?s3 = "gpio_put CLOCK_PIN_NUMBER False
               (gpio_put DATA_PIN_NUMBER False (gpio_put LATCH_PIN_NUMBER False s))"
  have c: "\<not> level ?s3 CLOCK_PIN_NUMBER" by simp
  have l: "last (map (bit addr) [0..<24]) = bit addr 23"
    by (simp add: last_map)
  have s3: "?s3 = s\<lparr>level := (level s)(LATCH_PIN_NUMBER := False, DATA_PIN_NUMBER := False,
                          CLOCK_PIN_NUMBER := False),
                   trace := trace s @ [Gpio_put LATCH_PIN_NUMBER False,
                      Gpio_put DATA_PIN_NUMBER False, Gpio_put CLOCK_PIN_NUMBER False]\<rparr>"
    by (simp add: gpio_put_def pin_defs)
  show ?thesis
    unfolding shiftAddress_def Let_def loop_foldl foldl_clock_bit [OF c]
    unfolding s3
    by (simp add: ADDRESS_LINES_def shift_all_addr l gpio_put_def nop_def pin_defs
        shift_sequence_def address_bits_def map_concat comp_def fun_eq_iff del: upt_Suc)
qed

subsection \<open>Data pins, reading a byte\<close>

lemma upt8: "[0..<8] = [0, 1, 2, 3, 4, 5, 6, 7]"
  by (simp add: upt_rec)

lemma Suc_Suc_0: "Suc (Suc 0) = 2"
  by simp

lemma setDataPins_eq:
  "setDataPins d s =
     s\<lparr>level := (\<lambda>p. if D0_PIN \<le> p \<and> p \<le> D7_PIN then bit d (p - D0_PIN) else level s p),
       trace := trace s @ data_sequence d\<rparr>"
  by (simp add: setDataPins_def data_pins_def data_sequence_def upt8 gpio_put_plain pin_defs
      Let_def and_one_neq_0 bit_drop_bit_eq Suc_Suc_0 fun_eq_iff)

lemma assemble_step:
  "push_bit 1 (drop_bit (Suc j) w) OR of_bool (bit w j) = drop_bit j (w :: u8)"
proof (rule bit_word_eqI)
  fix n assume "n < LENGTH(8)"
  show "bit (push_bit 1 (drop_bit (Suc j) w) OR of_bool (bit w j)) n = bit (drop_bit j w) n"
    unfolding bit_or_iff bit_push_bit_iff bit_drop_bit_eq bit_of_bool_iff
    by (cases n) (auto dest: bit_imp_le_length)
qed

lemma assemble_step1: "bit w j \<Longrightarrow> drop_bit (Suc j) w * 2 OR 1 = drop_bit j (w :: u8)"
  using assemble_step [of j w] by (simp add: push_bit_eq_mult)

lemma assemble_step0: "\<not> bit w j \<Longrightarrow> drop_bit (Suc j) w * 2 = drop_bit j (w :: u8)"
  using assemble_step [of j w] by (simp add: push_bit_eq_mult)

lemma readByte_loop:
  "chip_drives s \<Longrightarrow> (\<And>k. k < j \<Longrightarrow> \<not> dir s (D0_PIN + k)) \<Longrightarrow> j \<le> 8 \<Longrightarrow>
   EEPROM_readByte_loop (map (\<lambda>k. D0_PIN + k) (rev [0..<j]))
       (drop_bit j (mem s (ucast (latched s)))) s =
     (mem s (ucast (latched s)),
      s\<lparr>trace := trace s @ map (\<lambda>k. Gpio_get (D0_PIN + k)) (rev [0..<j])\<rparr>)"
proof (induction j arbitrary: s)
  case 0
  then show ?case by simp
next
  case (Suc j)
  let ?s' = "s\<lparr>trace := trace s @ [Gpio_get (D0_PIN + j)]\<rparr>"
  have g: "gpio_get (D0_PIN + j) s = (bit (mem s (ucast (latched s))) j, ?s')"
    using Suc.prems by (simp add: gpio_get_def line_in_def pin_defs)
  have d: "chip_drives ?s'" using Suc.prems(1) by (simp add: chip_drives_def)
  have "EEPROM_readByte_loop (map (\<lambda>k. D0_PIN + k) (rev [0..<j]))
          (drop_bit j (mem ?s' (ucast (latched ?s')))) ?s' =
        (mem ?s' (ucast (latched ?s')),
         ?s'\<lparr>trace := trace ?s' @ map (\<lambda>k. Gpio_get (D0_PIN + k)) (rev [0..<j])\<rparr>)"
    using Suc.prems by (intro Suc.IH [OF d]) simp_all
  then show ?case
    by (simp add: g assemble_step0 assemble_step1)
qed

lemma data_bus_eq:
  "(\<And>k. k < 8 \<Longrightarrow> data_line s k = bit d k) \<Longrightarrow> data_bus s = d"
proof -
  assume a: "\<And>k. k < 8 \<Longrightarrow> data_line s k = bit d k"
  have "map (data_line s) [0..<8] = map (bit d) [0..<8]"
    by (rule map_cong) (auto simp add: a)
  then have "data_bus s = horner_sum of_bool 2 (map (bit d) [0..<8])"
    by (simp only: data_bus_def)
  also have "\<dots> = take_bit 8 d"
    by (rule horner_sum_bit_eq_take_bit)
  finally show ?thesis by (simp add: take_bit_word_eq_self)
qed

subsection \<open>The bus write cycle\<close>

lemma data_pins_map: "data_pins = map (\<lambda>k. D0_PIN + k) [0..<8]"
  by (simp add: data_pins_def upt8 pin_defs)

lemma list_all_data_pins: "list_all P data_pins = (\<forall>k<8. P (D0_PIN + k))"
proof -
  have "(\<forall>x\<in>{D0_PIN..<8 + D0_PIN}. P x) = (\<forall>k<8. P (D0_PIN + k))"
  proof (intro iffI allI impI ballI)
    fix x assume a: "\<forall>k<8. P (D0_PIN + k)" and x: "x \<in> {D0_PIN..<8 + D0_PIN}"
    from x have "x - D0_PIN < 8" "x = D0_PIN + (x - D0_PIN)" by auto
    with a show "P x" by metis
  qed auto
  then show ?thesis by (simp add: data_pins_map list_all_iff)
qed

lemma write_bus_trace [simp]: "trace (write_bus a d s) = trace s @ write_sequence a d"
  by (simp add: write_bus_def Let_def shiftAddress_eq setDataPins_eq write_sequence_def
      nop_def sleep_us_def)

lemma byte_of_bits:
  "horner_sum of_bool 2
     [bit d 0, bit d (Suc 0), bit d 2, bit d 3, bit d 4, bit d 5, bit d 6, bit d 7] = (d :: u8)"
  using horner_sum_bit_eq_take_bit [of d 8]
  by (simp add: take_bit_word_eq_self upt8 del: horner_sum_simps)

lemma data_bus_unfold:
  "data_bus s = horner_sum of_bool 2
     [data_line s 0, data_line s 1, data_line s 2, data_line s 3, data_line s 4,
      data_line s 5, data_line s 6, data_line s 7]"
  by (simp add: data_bus_def upt8 del: horner_sum_simps)

lemma ucast_24_19 [simp]: "(ucast (ucast (a :: u32) :: 24 word) :: 19 word) = ucast a"
  by (rule bit_word_eqI) (auto simp add: bit_simps)

lemma WE_rise:
  "\<not> level s WRITE_ENABLE_PIN \<Longrightarrow> \<not> level s CHIP_ENABLE_PIN \<Longrightarrow>
   gpio_put WRITE_ENABLE_PIN True s =
     s\<lparr>level := (level s)(WRITE_ENABLE_PIN := True),
       cmd := next_cmd (cmd s) (ucast (chip_addr s)) (data_bus s),
       mem := next_mem (cmd s) (ucast (chip_addr s)) (data_bus s) (mem s),
       bus_log := bus_log s @ [(chip_addr s, data_bus s)],
       trace := trace s @ [Gpio_put WRITE_ENABLE_PIN True]\<rparr>"
  by (simp add: gpio_put_def write_strobe_def chip_write_def pin_defs)

lemma write_bus_eq:
  assumes "\<not> write_strobe s" and "list_all (dir s) data_pins"
  shows "write_bus a d s =
     s\<lparr>level := bus_levels a d (level s),
       dummy := dummy s + 15276,
       sr := ucast a, latched := ucast a, chip_addr := ucast a,
       cmd := next_cmd (cmd s) (ucast a) d,
       mem := next_mem (cmd s) (ucast a) d (mem s),
       bus_log := bus_log s @ [(ucast a, d)],
       trace := trace s @ write_sequence a d\<rparr>"
proof -
  let ?s4 = "nop (gpio_put CHIP_ENABLE_PIN False (gpio_put WRITE_ENABLE_PIN True
               (gpio_put OUTPUT_ENABLE_PIN True s)))"
  have s4: "?s4 = s\<lparr>level := (level s)(OUTPUT_ENABLE_PIN := True, WRITE_ENABLE_PIN := True,
                                     CHIP_ENABLE_PIN := False),
                  dummy := dummy s + 201,
                  trace := trace s @ [Gpio_put OUTPUT_ENABLE_PIN True,
                     Gpio_put WRITE_ENABLE_PIN True, Gpio_put CHIP_ENABLE_PIN False, Nop]\<rparr>"
    using assms(1) by (auto simp add: gpio_put_def nop_def write_strobe_def pin_defs Let_def)
  let ?s7 = "nop (setDataPins d (shiftAddress a ?s4))"
  let ?pre = "[Gpio_put OUTPUT_ENABLE_PIN True,
                     Gpio_put WRITE_ENABLE_PIN True, Gpio_put CHIP_ENABLE_PIN False, Nop]
                     @ shift_sequence a @ data_sequence d @ [Nop]"
  have s7: "?s7 = s\<lparr>level := (bus_levels a d (level s))(CHIP_ENABLE_PIN := False),
                  dummy := dummy s + 15276,
                  sr := ucast a, latched := ucast a,
                  trace := trace s @ ?pre\<rparr>"
    unfolding s4
    by (intro hw.equality)
       (auto simp add: shiftAddress_eq setDataPins_eq nop_def fun_eq_iff bus_levels_def pin_defs)
  let ?s9 = "sleep_us 1 (gpio_put WRITE_ENABLE_PIN False ?s7)"
  have s9: "?s9 = s\<lparr>level := (bus_levels a d (level s))(CHIP_ENABLE_PIN := False,
                                                        WRITE_ENABLE_PIN := False),
                  dummy := dummy s + 15276,
                  sr := ucast a, latched := ucast a, chip_addr := ucast a,
                  trace := trace s @ ?pre @ [Gpio_put WRITE_ENABLE_PIN False, Sleep_us 1]\<rparr>"
    unfolding s7
    by (simp add: gpio_put_def write_strobe_def sleep_us_def bus_levels_def pin_defs)
  have db: "data_bus ?s9 = d"
    using assms(2) unfolding s9
    by (simp add: data_bus_unfold data_line_def data_pins_def bus_levels_def pin_defs
        byte_of_bits del: horner_sum_simps)
  have w: "\<not> level ?s9 WRITE_ENABLE_PIN" "\<not> level ?s9 CHIP_ENABLE_PIN"
    unfolding s9 by (simp_all add: pin_defs)
  let ?s10 = "gpio_put WRITE_ENABLE_PIN True ?s9"
  have s10: "?s10 = s\<lparr>level := (bus_levels a d (level s))(CHIP_ENABLE_PIN := False),
                  dummy := dummy s + 15276,
                  sr := ucast a, latched := ucast a, chip_addr := ucast a,
                  cmd := next_cmd (cmd s) (ucast a) d,
                  mem := next_mem (cmd s) (ucast a) d (mem s),
                  bus_log := bus_log s @ [(ucast a, d)],
                  trace := trace s @ ?pre @ [Gpio_put WRITE_ENABLE_PIN False, Sleep_us 1,
                     Gpio_put WRITE_ENABLE_PIN True]\<rparr>"
    unfolding WE_rise [OF w] db unfolding s9
    by (intro hw.equality) (auto simp add: fun_eq_iff bus_levels_def pin_defs)
  have "write_bus a d s =
          sleep_us 25 (gpio_put CHIP_ENABLE_PIN True (sleep_us 1 ?s10))"
    by (simp add: write_bus_def Let_def)
  also have "\<dots> = s\<lparr>level := bus_levels a d (level s),
       dummy := dummy s + 15276,
       sr := ucast a, latched := ucast a, chip_addr := ucast a,
       cmd := next_cmd (cmd s) (ucast a) d,
       mem := next_mem (cmd s) (ucast a) d (mem s),
       bus_log := bus_log s @ [(ucast a, d)],
       trace := trace s @ write_sequence a d\<rparr>"
    unfolding s10
    by (intro hw.equality)
       (auto simp add: gpio_put_def write_strobe_def sleep_us_def write_sequence_def
          fun_eq_iff bus_levels_def pin_defs)
  finally show ?thesis .
qed

lemma write_mode_idle: "write_mode s \<Longrightarrow> \<not> write_strobe s"
  by (simp add: write_mode_def write_strobe_def)

lemma write_mode_dirs: "write_mode s \<Longrightarrow> list_all (dir s) data_pins"
  by (simp add: write_mode_def)

lemma write_bus_mode:
  "write_mode s \<Longrightarrow>
   write_bus a d s =
     s\<lparr>level := bus_levels a d (level s),
       dummy := dummy s + 15276,
       sr := ucast a, latched := ucast a, chip_addr := ucast a,
       cmd := next_cmd (cmd s) (ucast a) d,
       mem := next_mem (cmd s) (ucast a) d (mem s),
       bus_log := bus_log s @ [(ucast a, d)],
       trace := trace s @ write_sequence a d\<rparr>"
  by (rule write_bus_eq) (simp_all add: write_mode_idle write_mode_dirs)

lemma write_mode_write_bus: "write_mode s \<Longrightarrow> write_mode (write_bus a d s)"
  by (simp add: write_bus_mode) (simp add: write_mode_def bus_levels_def pin_defs data_pins_def)

lemma write_bus_fields:
  assumes "write_mode s"
  shows "bus_log (write_bus a d s) = bus_log s @ [(ucast a, d)]"
    and "cmd (write_bus a d s) = next_cmd (cmd s) (ucast a) d"
    and "mem (write_bus a d s) = next_mem (cmd s) (ucast a) d (mem s)"
    and "latched (write_bus a d s) = ucast a"
    and "dir (write_bus a d s) = dir s"
    and "level (write_bus a d s) = bus_levels a d (level s)"
  by (simp_all add: write_bus_mode [OF assms])

lemma ucast_cmd_addr [simp]:
  "(ucast (0x5555 :: u32) :: 24 word) = 0x5555"
  "(ucast (0x2AAA :: u32) :: 24 word) = 0x2AAA"
  "(ucast (0x5555 :: u32) :: 19 word) = 0x5555"
  "(ucast (0x2AAA :: u32) :: 19 word) = 0x2AAA"
  by simp_all

lemma writeByte_trace:
  "trace (EEPROM_writeByte a d s) =
     trace s @ write_sequence 0x5555 0xAA @ write_sequence 0x2AAA 0x55
       @ write_sequence 0x5555 0xA0 @ write_sequence a d"
  by (simp add: EEPROM_writeByte_def Let_def)

lemma writeByte_mode: "write_mode s \<Longrightarrow> write_mode (EEPROM_writeByte a d s)"
  by (simp add: EEPROM_writeByte_def Let_def write_mode_write_bus)

lemma writeByte_bus_log:
  "write_mode s \<Longrightarrow>
   bus_log (EEPROM_writeByte a d s) =
     bus_log s @ [(0x5555, 0xAA), (0x2AAA, 0x55), (0x5555, 0xA0), (ucast a, d)]"
  by (simp add: EEPROM_writeByte_def Let_def write_bus_fields write_mode_write_bus)

lemma writeByte_latched:
  "write_mode s \<Longrightarrow> latched (EEPROM_writeByte a d s) = ucast a"
  by (simp add: EEPROM_writeByte_def Let_def write_bus_fields write_mode_write_bus)

lemma writeByte_cmd:
  "write_mode s \<Longrightarrow> cmd s = Idle \<Longrightarrow> cmd (EEPROM_writeByte a d s) = Idle"
  by (simp add: EEPROM_writeByte_def Let_def write_bus_fields write_mode_write_bus)

lemma writeByte_mem:
  "write_mode s \<Longrightarrow> cmd s = Idle \<Longrightarrow> mem (EEPROM_writeByte a d s) = (mem s)(ucast a := d)"
  by (simp add: EEPROM_writeByte_def Let_def write_bus_fields write_mode_write_bus)

subsection \<open>Modes, mismatch report, bus read\<close>

lemma setWriteMode_mode: "write_mode (setWriteMode s)"
  by (simp add: setWriteMode_def Let_def data_pins_def write_mode_def sleep_ms_def
      gpio_set_dir_def gpio_put_plain pin_defs)

lemma setWriteMode_trace: "trace (setWriteMode s) = trace s @ write_mode_sequence"
  by (simp add: setWriteMode_def Let_def data_pins_def write_mode_sequence_def sleep_ms_def
      gpio_set_dir_def gpio_put_plain pin_defs upt8)

lemma setWriteMode_chip:
  assumes "\<not> write_strobe s"
  shows "cmd (setWriteMode s) = cmd s" and "mem (setWriteMode s) = mem s"
    and "bus_log (setWriteMode s) = bus_log s"
proof -
  let ?s1 = "setWriteMode_loop data_pins s"
  have s1: "?s1 = s\<lparr>level := level ?s1, dir := dir ?s1, trace := trace ?s1\<rparr>"
    by (simp add: data_pins_def gpio_set_dir_def gpio_put_plain pin_defs)
  have l: "level ?s1 WRITE_ENABLE_PIN = level s WRITE_ENABLE_PIN"
          "level ?s1 CHIP_ENABLE_PIN = level s CHIP_ENABLE_PIN"
    by (simp_all add: data_pins_def gpio_set_dir_def gpio_put_plain pin_defs)
  have r: "setWriteMode s =
      sleep_ms 1 (gpio_put WRITE_ENABLE_PIN True (gpio_put CHIP_ENABLE_PIN True
        (gpio_put OUTPUT_ENABLE_PIN True ?s1)))"
    by (simp add: setWriteMode_def Let_def)
  have i: "\<not> write_strobe ?s1" using assms by (simp add: write_strobe_def l)
  show "cmd (setWriteMode s) = cmd s" "mem (setWriteMode s) = mem s"
       "bus_log (setWriteMode s) = bus_log s"
    unfolding r using i
    by (subst s1, auto simp add: gpio_put_def sleep_ms_def write_strobe_def pin_defs Let_def)+
qed

lemma handleByteMismatch_eq:
  "handleByteMismatch a e actual s = s\<lparr>trace := trace s @ mismatch_sequence a e actual\<rparr>"
  by (simp add: handleByteMismatch_def mismatch_sequence_def oledDisplayMessages_def
      printf_def sleep_ms_def Let_def)

lemma read_mode_drives: "read_mode s \<Longrightarrow> chip_drives s"
  by (simp add: read_mode_def chip_drives_def)

lemma rev_data_pins: "rev data_pins = map (\<lambda>k. D0_PIN + k) (rev [0..<8])"
  by (simp add: data_pins_map rev_map)

lemma EEPROM_readByte_eq:
  assumes "read_mode s"
  shows "EEPROM_readByte a s =
     (mem s (ucast a),
      s\<lparr>level := (level s)(LATCH_PIN_NUMBER := False, DATA_PIN_NUMBER := bit a 23,
                           CLOCK_PIN_NUMBER := False),
        dummy := dummy s + 15075,
        sr := ucast a, latched := ucast a,
        trace := trace s @ read_sequence a\<rparr>)"
proof -
  let ?s2 = "nop (shiftAddress a s)"
  have s2: "?s2 = s\<lparr>level := (level s)(LATCH_PIN_NUMBER := False, DATA_PIN_NUMBER := bit a 23,
                           CLOCK_PIN_NUMBER := False),
        dummy := dummy s + 15075,
        sr := ucast a, latched := ucast a,
        trace := trace s @ shift_sequence a @ [Nop]\<rparr>"
    by (simp add: shiftAddress_eq nop_def)
  have d: "chip_drives ?s2"
    using assms unfolding s2 by (simp add: read_mode_def chip_drives_def pin_defs)
  have i: "\<And>k. k < 8 \<Longrightarrow> \<not> dir ?s2 (D0_PIN + k)"
    using assms unfolding s2 by (simp add: read_mode_def list_all_data_pins)
  have m: "mem ?s2 (ucast (latched ?s2)) = mem s (ucast a)"
    unfolding s2 by simp
  have z: "(0 :: u8) = drop_bit 8 (mem ?s2 (ucast (latched ?s2)))"
    by (simp add: drop_bit_eq_zero_iff_not_bit_last) 
  have g: "map (\<lambda>k. Gpio_get (D0_PIN + k)) (rev [0..<8]) = map (\<lambda>k. Gpio_get (D7_PIN - k)) [0..<8]"
    by (simp add: upt8 pin_defs)
  have "EEPROM_readByte a s = EEPROM_readByte_loop (rev data_pins) 0 ?s2"
    by (simp add: EEPROM_readByte_def Let_def)
  also have "\<dots> = EEPROM_readByte_loop (map (\<lambda>k. D0_PIN + k) (rev [0..<8]))
                      (drop_bit 8 (mem ?s2 (ucast (latched ?s2)))) ?s2"
    using z by (simp only: rev_data_pins)
  also have "\<dots> = (mem ?s2 (ucast (latched ?s2)),
      ?s2\<lparr>trace := trace ?s2 @ map (\<lambda>k. Gpio_get (D0_PIN + k)) (rev [0..<8])\<rparr>)"
    by (rule readByte_loop [OF d i]) simp_all
  also have "\<dots> = (mem s (ucast a),
      s\<lparr>level := (level s)(LATCH_PIN_NUMBER := False, DATA_PIN_NUMBER := bit a 23,
                           CLOCK_PIN_NUMBER := False),
        dummy := dummy s + 15075,
        sr := ucast a, latched := ucast a,
        trace := trace s @ read_sequence a\<rparr>)"
    unfolding m g unfolding s2 by (simp add: read_sequence_def)
  finally show ?thesis .
qed

lemma setReadMode_step:
  assumes "D0_PIN \<le> pin" "pin \<le> D7_PIN"
  shows "\<exists>l ops. sleep_ms 1 (gpio_pull_down pin (gpio_set_dir pin False
            (if gpio_get_dir pin s then sleep_ms 1 (gpio_put pin False s) else s))) =
          s\<lparr>level := (level s)(pin := l), dir := (dir s)(pin := False),
            trace := trace s @ ops\<rparr>"
proof (cases "gpio_get_dir pin s")
  case True
  have "sleep_ms 1 (gpio_pull_down pin (gpio_set_dir pin False
            (if gpio_get_dir pin s then sleep_ms 1 (gpio_put pin False s) else s))) =
          s\<lparr>level := (level s)(pin := False), dir := (dir s)(pin := False),
            trace := trace s @ [Gpio_put pin False, Sleep_ms 1, Gpio_set_dir pin False,
                                Gpio_pull_down pin, Sleep_ms 1]\<rparr>"
    using True assms
    by (simp add: gpio_put_plain pin_defs sleep_ms_def gpio_pull_down_def gpio_set_dir_def)
  then show ?thesis by blast
next
  case False
  have "sleep_ms 1 (gpio_pull_down pin (gpio_set_dir pin False
            (if gpio_get_dir pin s then sleep_ms 1 (gpio_put pin False s) else s))) =
          s\<lparr>level := (level s)(pin := level s pin), dir := (dir s)(pin := False),
            trace := trace s @ [Gpio_set_dir pin False, Gpio_pull_down pin, Sleep_ms 1]\<rparr>"
    using False
    by (simp add: sleep_ms_def gpio_pull_down_def gpio_set_dir_def)
  then show ?thesis by blast
qed

lemma setReadMode_loop_frame:
  "\<forall>p \<in> set pins. D0_PIN \<le> p \<and> p \<le> D7_PIN \<Longrightarrow>
   \<exists>l ops. setReadMode_loop pins s =
     s\<lparr>level := (\<lambda>p. if p \<in> set pins then l p else level s p),
       dir := (\<lambda>p. if p \<in> set pins then False else dir s p),
       trace := trace s @ ops\<rparr>"
proof (induction pins arbitrary: s)
  case Nil
  have "setReadMode_loop [] s = s\<lparr>level := (\<lambda>p. if p \<in> set [] then level s p else level s p),
       dir := (\<lambda>p. if p \<in> set [] then False else dir s p), trace := trace s @ []\<rparr>"
    by simp
  then show ?case by blast
next
  case (Cons pin pins)
  from Cons.prems have b: "D0_PIN \<le> pin" "pin \<le> D7_PIN" by simp_all
  obtain l1 ops1 where 1: "sleep_ms 1 (gpio_pull_down pin (gpio_set_dir pin False
            (if gpio_get_dir pin s then sleep_ms 1 (gpio_put pin False s) else s))) =
          s\<lparr>level := (level s)(pin := l1), dir := (dir s)(pin := False),
            trace := trace s @ ops1\<rparr>" (is "?step = ?s1")
    using setReadMode_step [OF b] by blast
  from Cons.prems have "\<forall>p \<in> set pins. D0_PIN \<le> p \<and> p \<le> D7_PIN" by simp
  from Cons.IH [OF this, of ?s1] obtain l ops where
    2: "setReadMode_loop pins ?s1 =
        ?s1\<lparr>level := (\<lambda>p. if p \<in> set pins then l p else level ?s1 p),
           dir := (\<lambda>p. if p \<in> set pins then False else dir ?s1 p),
           trace := trace ?s1 @ ops\<rparr>"
    by blast
  have "setReadMode_loop (pin # pins) s = setReadMode_loop pins ?step"
    by (simp add: Let_def)
  also have "\<dots> = s\<lparr>level := (\<lambda>p. if p \<in> set (pin # pins) then (if p \<in> set pins then l p else l1) else level s p),
       dir := (\<lambda>p. if p \<in> set (pin # pins) then False else dir s p),
       trace := trace s @ (ops1 @ ops)\<rparr>"
    unfolding 1 2 by (intro hw.equality) (auto simp add: fun_eq_iff)
  finally show ?case
    by (intro exI [of _ "\<lambda>p. if p \<in> set pins then l p else l1"] exI [of _ "ops1 @ ops"])
qed

lemma setReadMode_mode: "read_mode (setReadMode s)"
proof -
  have "\<forall>p \<in> set data_pins. D0_PIN \<le> p \<and> p \<le> D7_PIN"
    by (simp add: data_pins_def pin_defs)
  from setReadMode_loop_frame [OF this, of s] obtain l ops where
    1: "setReadMode_loop data_pins s =
     s\<lparr>level := (\<lambda>p. if p \<in> set data_pins then l p else level s p),
       dir := (\<lambda>p. if p \<in> set data_pins then False else dir s p),
       trace := trace s @ ops\<rparr>"
    by blast
  show ?thesis
    by (simp add: setReadMode_def Let_def 1 sleep_ms_def read_mode_def list_all_iff pin_defs)
qed

lemma gpio_put_WE_idle:
  "\<not> write_strobe s \<Longrightarrow>
   gpio_put WRITE_ENABLE_PIN True s =
     s\<lparr>level := (level s)(WRITE_ENABLE_PIN := True),
       trace := trace s @ [Gpio_put WRITE_ENABLE_PIN True]\<rparr>"
  by (auto simp add: gpio_put_def write_strobe_def pin_defs)

lemma gpio_put_CE_idle:
  "level s WRITE_ENABLE_PIN \<Longrightarrow>
   gpio_put CHIP_ENABLE_PIN v s =
     s\<lparr>level := (level s)(CHIP_ENABLE_PIN := v),
       trace := trace s @ [Gpio_put CHIP_ENABLE_PIN v]\<rparr>"
  by (simp add: gpio_put_def write_strobe_def pin_defs)

lemma gpio_put_OE:
  "gpio_put OUTPUT_ENABLE_PIN v s =
     s\<lparr>level := (level s)(OUTPUT_ENABLE_PIN := v),
       trace := trace s @ [Gpio_put OUTPUT_ENABLE_PIN v]\<rparr>"
  by (simp add: gpio_put_plain pin_defs)

lemma setReadMode_chip:
  assumes "\<not> write_strobe s"
  shows "cmd (setReadMode s) = cmd s" and "mem (setReadMode s) = mem s"
    and "bus_log (setReadMode s) = bus_log s" and "latched (setReadMode s) = latched s"
proof -
  define s1 where "s1 = setReadMode_loop data_pins s"
  have "\<forall>p \<in> set data_pins. D0_PIN \<le> p \<and> p \<le> D7_PIN"
    by (simp add: data_pins_def pin_defs)
  from setReadMode_loop_frame [OF this, of s] obtain l ops where
    1: "s1 =
     s\<lparr>level := (\<lambda>p. if p \<in> set data_pins then l p else level s p),
       dir := (\<lambda>p. if p \<in> set data_pins then False else dir s p),
       trace := trace s @ ops\<rparr>"
    unfolding s1_def by blast
  have f: "cmd s1 = cmd s" "mem s1 = mem s" "bus_log s1 = bus_log s" "latched s1 = latched s"
    by (simp_all add: 1)
  have i: "\<not> write_strobe s1"
    using assms by (simp add: 1 write_strobe_def data_pins_def pin_defs)
  have r: "setReadMode s = sleep_ms 1 (gpio_put CHIP_ENABLE_PIN False
             (gpio_put OUTPUT_ENABLE_PIN False (gpio_put WRITE_ENABLE_PIN True s1)))"
    by (simp add: setReadMode_def Let_def s1_def)
  show "cmd (setReadMode s) = cmd s" "mem (setReadMode s) = mem s"
    "bus_log (setReadMode s) = bus_log s" "latched (setReadMode s) = latched s"
    unfolding r
    by (simp_all add: sleep_ms_def gpio_put_WE_idle [OF i, unfolded pin_defs]
        gpio_put_OE [unfolded pin_defs] gpio_put_CE_idle [unfolded pin_defs] f pin_defs)
qed

subsection \<open>Address bits\<close>

lemma map_const: "(\<And>x. x \<in> set xs \<Longrightarrow> f x = c) \<Longrightarrow> map f xs = replicate (length xs) c"
  by (induction xs) auto

lemma address_bits_0: "address_bits 0 = replicate ADDRESS_LINES False"
  unfolding address_bits_def by (subst map_const [where c = False]) simp_all

lemma address_bits_max:
  "address_bits (2 ^ 19 - 1) = replicate 19 True @ replicate (ADDRESS_LINES - 19) False"
proof -
  have m: "(2 ^ 19 - 1 :: u32) = mask 19" by (simp add: mask_eq_exp_minus_1)
  have "[0..<24] = [0..<19] @ [19..<24]"
    using upt_add_eq_append [of 0 19 5] by simp
  moreover have "map (bit (mask 19 :: u32)) [0..<19] = replicate 19 True"
    by (subst map_const [where c = True]) (simp_all add: bit_mask_iff del: upt_rec_numeral)
  moreover have "map (bit (mask 19 :: u32)) [19..<24] = replicate 5 False"
    by (subst map_const [where c = False]) (simp_all add: bit_mask_iff del: upt_rec_numeral)
  ultimately show ?thesis
    unfolding m by (simp add: address_bits_def ADDRESS_LINES_def)
qed

lemma shiftAddress_low_bits:
  assumes "take_bit 24 a = take_bit 24 (b :: u32)"
  shows "shiftAddress a s = shiftAddress b s"
proof -
  have b: "bit a i = bit b i" if "i < 24" for i
  proof -
    have "bit (take_bit 24 a) i = bit (take_bit 24 b) i" using assms by simp
    with that show ?thesis by (simp add: bit_take_bit_iff)
  qed
  have 1: "bit a 23 = bit b 23" by (rule b) simp
  have 2: "(ucast a :: 24 word) = ucast b"
    by (rule bit_word_eqI) (auto simp add: bit_simps b)
  have 3: "address_bits a = address_bits b"
    by (simp add: address_bits_def ADDRESS_LINES_def b)
  show ?thesis
    by (simp add: shiftAddress_eq shift_sequence_def 1 2 3)
qed

subsection \<open>Unlocked write, erase\<close>

lemma write_mode_not_strobe_after:
  "write_mode s \<Longrightarrow> \<not> write_strobe (EEPROM_writeByte a b s)"
  by (rule write_mode_idle) (rule writeByte_mode)

lemma chipErase_run:
  "EEPROM_chipErase s =
     sleep_ms 1000 (oledDisplayMessages ''EEPROM'' ''erase'' ''complete!'' ''Waiting'' ''1 second.''
       (printf (''Chip erase complete!'' @ [CHR 0x0A])
         (write_bus 0x5555 0x10 (write_bus 0x2AAA 0x55 (write_bus 0x5555 0xAA
           (write_bus 0x5555 0x80 (write_bus 0x2AAA 0x55 (write_bus 0x5555 0xAA
             (setWriteMode (oledDisplayMessages ''Erasing'' ''EEPROM'' ''now...'' [] [] s))))))))))"
  by (simp add: EEPROM_chipErase_def Let_def)

lemma chipErase_trace:
  "trace (EEPROM_chipErase s) =
     trace s @ [Oled_display [''Erasing'', ''EEPROM'', ''now...'', [], []]]
       @ write_mode_sequence
       @ write_sequence 0x5555 0xAA @ write_sequence 0x2AAA 0x55 @ write_sequence 0x5555 0x80
       @ write_sequence 0x5555 0xAA @ write_sequence 0x2AAA 0x55 @ write_sequence 0x5555 0x10
       @ [Printf (''Chip erase complete!'' @ [CHR 0x0A]),
          Oled_display [''EEPROM'', ''erase'', ''complete!'', ''Waiting'', ''1 second.''],
          Sleep_ms 1000]"
  by (simp add: chipErase_run sleep_ms_def oledDisplayMessages_def printf_def setWriteMode_trace)

lemma chipErase_wait: "trailing_wait_us (trace (EEPROM_chipErase s)) = 1000025"
  by (simp add: chipErase_trace trailing_wait_us_def write_sequence_def)

lemma chipErase_bus_log:
  assumes "\<not> write_strobe s"
  shows "bus_log (EEPROM_chipErase s) =
     bus_log s @ [(0x5555, 0xAA), (0x2AAA, 0x55), (0x5555, 0x80),
                  (0x5555, 0xAA), (0x2AAA, 0x55), (0x5555, 0x10)]"
proof -
  let ?s0 = "oledDisplayMessages ''Erasing'' ''EEPROM'' ''now...'' [] [] s"
  have i: "\<not> write_strobe ?s0"
    using assms by (simp add: oledDisplayMessages_def write_strobe_def)
  have b: "bus_log (setWriteMode ?s0) = bus_log s"
    by (simp add: setWriteMode_chip [OF i]) (simp add: oledDisplayMessages_def)
  show ?thesis
    by (simp add: chipErase_run sleep_ms_def oledDisplayMessages_def [of "''EEPROM''"]
        printf_def write_bus_fields write_mode_write_bus setWriteMode_mode b)
qed

subsection \<open>The program loop\<close>

lemma upt_0_Suc: "[0..<Suc n] = 0 # map Suc [0..<n]"
  by (simp add: upt_conv_Cons map_Suc_upt del: upt_Suc)

lemma u32_shift: "(a :: u32) + 1 + of_nat i = a + of_nat (Suc i)"
  by simp

lemma write_buffer_run:
  "write_mode s \<Longrightarrow> cmd s = Idle \<Longrightarrow>
   fst (write_buffer bs a s) = a + of_nat (length bs)
   \<and> write_mode (snd (write_buffer bs a s))
   \<and> cmd (snd (write_buffer bs a s)) = Idle
   \<and> mem (snd (write_buffer bs a s)) = programmed bs a (mem s)
   \<and> bus_log (snd (write_buffer bs a s)) =
       bus_log s @ concat (map (\<lambda>i. unlock_write (a + of_nat i) (bs ! i)) [0..<length bs])
   \<and> trace (snd (write_buffer bs a s)) =
       trace s @ concat (map (\<lambda>i. unlock_write_sequence (a + of_nat i) (bs ! i)) [0..<length bs])"
proof (induction bs arbitrary: a s)
  case Nil
  then show ?case by simp
next
  case (Cons b bs)
  let ?s1 = "EEPROM_writeByte a b s"
  have 1: "write_mode ?s1" "cmd ?s1 = Idle"
    using Cons.prems by (simp_all add: writeByte_mode writeByte_cmd)
  note IH = Cons.IH [OF 1, of "a + 1"]
  show ?case
    using IH Cons.prems
    by (simp add: upt_0_Suc comp_def writeByte_mem writeByte_bus_log writeByte_trace
        unlock_write_def unlock_write_sequence_def add.assoc fun_upd_def del: upt_Suc)
qed

lemma write_buffer_append:
  "write_buffer (xs @ ys) a s =
     write_buffer ys (fst (write_buffer xs a s)) (snd (write_buffer xs a s))"
  by (induction xs arbitrary: a s) simp_all

lemma programmed_other:
  "(\<And>i. i < length bs \<Longrightarrow> ucast (a + of_nat i) \<noteq> x) \<Longrightarrow> programmed bs a m x = m x"
proof (induction bs arbitrary: a m)
  case Nil
  then show ?case by simp
next
  case (Cons b bs)
  have "programmed bs (a + 1) (m(ucast a := b)) x = (m(ucast a := b)) x"
  proof (rule Cons.IH)
    fix i assume "i < length bs"
    then show "ucast (a + 1 + of_nat i) \<noteq> x"
      using Cons.prems [of "Suc i"] by (simp add: add.assoc)
  qed
  moreover have "ucast a \<noteq> x" using Cons.prems [of 0] by simp
  ultimately show ?case by simp
qed

lemma dvd_19_32: "(2 :: nat) ^ 19 dvd 2 ^ 32"
  by (rule le_imp_power_dvd) simp

lemma unat_ucast_19: "unat (ucast (w :: u32) :: 19 word) = unat w mod 2 ^ 19"
  by (simp add: unsigned_ucast_eq take_bit_eq_mod)

lemma ucast_add_19: "(ucast (a + b :: u32) :: 19 word) = ucast a + ucast b"
proof -
  have "unat (ucast (a + b) :: 19 word) = (unat a + unat b) mod 2 ^ 32 mod 2 ^ 19"
    by (simp only: unat_ucast_19 unat_word_ariths(1)) simp
  also have "\<dots> = (unat a + unat b) mod 2 ^ 19"
    by (rule mod_mod_cancel) (rule dvd_19_32)
  also have "\<dots> = (unat a mod 2 ^ 19 + unat b mod 2 ^ 19) mod 2 ^ 19"
    by (simp only: mod_add_eq)
  also have "\<dots> = unat (ucast a + ucast b :: 19 word)"
    by (simp only: unat_ucast_19 unat_word_ariths(1)) simp
  finally show ?thesis by (simp only: word_unat_eq_iff)
qed

lemma ucast_of_nat_19: "(ucast (of_nat k :: u32) :: 19 word) = of_nat k"
proof -
  have "unat (ucast (of_nat k :: u32) :: 19 word) = k mod 2 ^ 32 mod 2 ^ 19"
    by (simp only: unat_ucast_19 unat_of_nat) simp
  also have "\<dots> = k mod 2 ^ 19"
    by (rule mod_mod_cancel) (rule dvd_19_32)
  also have "\<dots> = unat (of_nat k :: 19 word)"
    by (simp only: unat_of_nat) simp
  finally show ?thesis by (simp only: word_unat_eq_iff)
qed

lemma ucast_19_distinct:
  assumes "0 < k" "k < 2 ^ 19"
  shows "(ucast (a + of_nat k :: u32) :: 19 word) \<noteq> ucast a"
proof
  assume "(ucast (a + of_nat k :: u32) :: 19 word) = ucast a"
  then have "(of_nat k :: 19 word) = 0"
    by (simp add: ucast_add_19 ucast_of_nat_19)
  then have "2 ^ 19 dvd k"
    by (simp add: word_of_nat_eq_0_iff)
  with assms show False
    by (auto dest: dvd_imp_le)
qed

lemma programmed_at:
  "length bs \<le> 2 ^ 19 \<Longrightarrow> i < length bs \<Longrightarrow>
   programmed bs a m (ucast (a + of_nat i)) = bs ! i"
proof (induction bs arbitrary: a m i)
  case Nil
  then show ?case by simp
next
  case (Cons b bs)
  show ?case
  proof (cases i)
    case 0
    have "programmed bs (a + 1) (m(ucast a := b)) (ucast a) = (m(ucast a := b)) (ucast a)"
    proof (rule programmed_other)
      fix j assume "j < length bs"
      with Cons.prems(1) have "0 < Suc j" "Suc j < 2 ^ 19" by simp_all
      then have "(ucast (a + of_nat (Suc j) :: u32) :: 19 word) \<noteq> ucast a"
        by (rule ucast_19_distinct)
      then show "(ucast (a + 1 + of_nat j) :: 19 word) \<noteq> ucast a"
        by (simp add: add.assoc)
    qed
    with 0 show ?thesis by simp
  next
    case (Suc i')
    with Cons.prems have "length bs \<le> 2 ^ 19" "i' < length bs" by simp_all
    from Cons.IH [OF this, of "a + 1" "m(ucast a := b)"] Suc
    show ?thesis by (simp add: add.assoc fun_upd_def)
  qed
qed

lemma f_read_ok:
  "err fil = FR_OK \<Longrightarrow>
   f_read fil n =
     (FR_OK, take n (drop (fptr fil) (fdata fil)),
      fil\<lparr>f_read_calls := f_read_calls fil + 1,
          fptr := fptr fil + length (take n (drop (fptr fil) (fdata fil)))\<rparr>)"
  by (simp add: f_read_def Let_def)

lemma chunk_split:
  fixes rest :: "'a list"
  assumes "\<not> length (take BUFFER_SIZE rest) < BUFFER_SIZE"
  shows "length (take BUFFER_SIZE rest) = BUFFER_SIZE"
    and "length rest = BUFFER_SIZE + length (drop BUFFER_SIZE rest)"
    and "length rest div BUFFER_SIZE = Suc (length (drop BUFFER_SIZE rest) div BUFFER_SIZE)"
proof -
  from assms have l: "BUFFER_SIZE \<le> length rest" by auto
  then show "length (take BUFFER_SIZE rest) = BUFFER_SIZE" by simp
  from l show "length rest = BUFFER_SIZE + length (drop BUFFER_SIZE rest)" by simp
  from l show "length rest div BUFFER_SIZE = Suc (length (drop BUFFER_SIZE rest) div BUFFER_SIZE)"
    by (simp add: BUFFER_SIZE_def le_div_geq)
qed

lemma chunk_last:
  fixes rest :: "'a list"
  assumes "length (take BUFFER_SIZE rest) < BUFFER_SIZE"
  shows "take BUFFER_SIZE rest = rest" and "length rest div BUFFER_SIZE = 0"
  using assms by (auto simp add: min_def split: if_splits)

lemma WriteCurrentFile_loop_run:
  "err fil = FR_OK \<Longrightarrow>
   WriteCurrentFile_loop fil a s =
     (fst (write_buffer (drop (fptr fil) (fdata fil)) a s),
      fil\<lparr>f_read_calls := f_read_calls fil
              + length (drop (fptr fil) (fdata fil)) div BUFFER_SIZE + 1,
          fptr := fptr fil + length (drop (fptr fil) (fdata fil))\<rparr>,
      snd (write_buffer (drop (fptr fil) (fdata fil)) a s))"
proof (induction fil a s rule: WriteCurrentFile_loop.induct)
  case (1 fil a s)
  define rest where "rest = drop (fptr fil) (fdata fil)"
  define buffer where "buffer = take BUFFER_SIZE rest"
  define fil' where "fil' = fil\<lparr>f_read_calls := f_read_calls fil + 1,
                     fptr := fptr fil + length buffer\<rparr>"
  have r: "f_read fil BUFFER_SIZE = (FR_OK, buffer, fil')"
    unfolding fil'_def buffer_def rest_def using "1.prems" by (rule f_read_ok)
  show ?case
  proof (cases "length buffer < BUFFER_SIZE")
    case True
    then have "buffer = rest" "length rest div BUFFER_SIZE = 0"
      unfolding buffer_def by (rule chunk_last)+
    moreover from this True have "length rest < BUFFER_SIZE" by simp
    ultimately show ?thesis
      unfolding rest_def [symmetric]
      by (subst WriteCurrentFile_loop.simps) (simp add: r fil'_def split: prod.split)
  next
    case False
    then have l: "length buffer = BUFFER_SIZE"
      "length rest = BUFFER_SIZE + length (drop BUFFER_SIZE rest)"
      "length rest div BUFFER_SIZE = Suc (length (drop BUFFER_SIZE rest) div BUFFER_SIZE)"
      unfolding buffer_def by (rule chunk_split)+
    have e: "err fil' = FR_OK" using "1.prems" by (simp add: fil'_def)
    have d: "drop (fptr fil') (fdata fil') = drop BUFFER_SIZE rest"
      by (simp add: fil'_def l(1) rest_def add.commute)
    have sp: "rest = buffer @ drop BUFFER_SIZE rest"
      unfolding buffer_def by (rule append_take_drop_id [symmetric])
    obtain a' s' where w: "write_buffer buffer a s = (a', s')" by (cases "write_buffer buffer a s")
    have wr: "write_buffer rest a s = write_buffer (drop BUFFER_SIZE rest) a' s'"
      by (subst sp) (simp add: write_buffer_append w)
    have "WriteCurrentFile_loop fil a s = WriteCurrentFile_loop fil' a' s'"
      using False by (subst WriteCurrentFile_loop.simps) (simp add: r w)
    also have "\<dots> = (fst (write_buffer (drop BUFFER_SIZE rest) a' s'),
        fil'\<lparr>f_read_calls := f_read_calls fil'
              + length (drop BUFFER_SIZE rest) div BUFFER_SIZE + 1,
          fptr := fptr fil' + length (drop BUFFER_SIZE rest)\<rparr>,
        snd (write_buffer (drop BUFFER_SIZE rest) a' s'))"
      using "1.IH" [OF r [symmetric] refl _ w [symmetric] False e] unfolding d by simp
    also have "\<dots> = (fst (write_buffer rest a s),
      fil\<lparr>f_read_calls := f_read_calls fil + length rest div BUFFER_SIZE + 1,
          fptr := fptr fil + length rest\<rparr>,
      snd (write_buffer rest a s))"
      unfolding wr l(3) by (subst l(2)) (simp add: fil'_def l(1))
    finally show ?thesis unfolding rest_def .
  qed
qed

subsection \<open>The verify loops\<close>

lemma mismatches_Nil [simp]: "mismatches m a [] = []"
  by (simp add: mismatches_def)

lemma mismatches_Cons:
  "mismatches m a (b # bs) =
     (if m (ucast a) \<noteq> b then [0] else []) @ map Suc (mismatches m (a + 1) bs)"
  by (simp add: mismatches_def upt_0_Suc filter_map comp_def add.assoc del: upt_Suc)

lemma readByte_keeps:
  assumes "read_mode s"
  shows "fst (EEPROM_readByte a s) = mem s (ucast a)"
    and "read_mode (snd (EEPROM_readByte a s))"
    and "mem (snd (EEPROM_readByte a s)) = mem s"
    and "cmd (snd (EEPROM_readByte a s)) = cmd s"
    and "bus_log (snd (EEPROM_readByte a s)) = bus_log s"
    and "trace (snd (EEPROM_readByte a s)) = trace s @ read_sequence a"
    and "latched (snd (EEPROM_readByte a s)) = ucast a"
  using assms
  by (simp_all add: EEPROM_readByte_eq [OF assms] read_mode_def pin_defs)

lemma mismatch_keeps:
  "read_mode (handleByteMismatch a e x s) = read_mode s"
  "mem (handleByteMismatch a e x s) = mem s"
  "cmd (handleByteMismatch a e x s) = cmd s"
  "bus_log (handleByteMismatch a e x s) = bus_log s"
  "latched (handleByteMismatch a e x s) = latched s"
  "trace (handleByteMismatch a e x s) = trace s @ mismatch_sequence a e x"
  by (simp_all add: handleByteMismatch_eq read_mode_def)

lemma verify_buffer_run:
  "read_mode s \<Longrightarrow>
   fst (verify_buffer bs a e s) = a + of_nat (length bs)
   \<and> fst (snd (verify_buffer bs a e s)) = e + of_nat (length (mismatches (mem s) a bs))
   \<and> read_mode (snd (snd (verify_buffer bs a e s)))
   \<and> mem (snd (snd (verify_buffer bs a e s))) = mem s
   \<and> cmd (snd (snd (verify_buffer bs a e s))) = cmd s
   \<and> bus_log (snd (snd (verify_buffer bs a e s))) = bus_log s
   \<and> trace (snd (snd (verify_buffer bs a e s))) =
       trace s @ concat (map (\<lambda>i. verify_sequence (a + of_nat i) (bs ! i)
                                    (mem s (ucast (a + of_nat i)))) [0..<length bs])"
proof (induction bs arbitrary: a e s)
  case Nil
  then show ?case by simp
next
  case (Cons b bs)
  obtain x s1 where r: "EEPROM_readByte a s = (x, s1)" by (cases "EEPROM_readByte a s")
  from readByte_keeps [OF Cons.prems, of a] r
  have k: "x = mem s (ucast a)" "read_mode s1" "mem s1 = mem s" "cmd s1 = cmd s"
    "bus_log s1 = bus_log s" "trace s1 = trace s @ read_sequence a"
    by simp_all
  show ?case
  proof (cases "x \<noteq> b")
    case True
    let ?s2 = "handleByteMismatch a b x s1"
    have m: "read_mode ?s2" using k(2) by (simp add: mismatch_keeps)
    from Cons.IH [OF m, of "a + 1" "e + 1"] True k
    show ?thesis
      by (simp add: r mismatches_Cons mismatch_keeps upt_0_Suc comp_def add.assoc
          verify_sequence_def del: upt_Suc cong: if_cong)
  next
    case False
    from Cons.IH [OF k(2), of "a + 1" e] False k
    show ?thesis
      by (simp add: r mismatches_Cons upt_0_Suc comp_def add.assoc
          verify_sequence_def del: upt_Suc cong: if_cong)
  qed
qed

lemma verify_buffer_append:
  "verify_buffer (xs @ ys) a e s =
     verify_buffer ys (fst (verify_buffer xs a e s)) (fst (snd (verify_buffer xs a e s)))
       (snd (snd (verify_buffer xs a e s)))"
  by (induction xs arbitrary: a e s) (simp_all split: prod.split)

lemma ReadAndVerify_loop_run:
  "err fil = FR_OK \<Longrightarrow>
   ReadAndVerify_loop fil a e s =
     (fst (verify_buffer (drop (fptr fil) (fdata fil)) a e s),
      fst (snd (verify_buffer (drop (fptr fil) (fdata fil)) a e s)),
      fil\<lparr>f_read_calls := f_read_calls fil
              + length (drop (fptr fil) (fdata fil)) div BUFFER_SIZE + 1,
          fptr := fptr fil + length (drop (fptr fil) (fdata fil))\<rparr>,
      snd (snd (verify_buffer (drop (fptr fil) (fdata fil)) a e s)))"
proof (induction fil a e s rule: ReadAndVerify_loop.induct)
  case (1 fil a e s)
  define rest where "rest = drop (fptr fil) (fdata fil)"
  define buffer where "buffer = take BUFFER_SIZE rest"
  define fil' where "fil' = fil\<lparr>f_read_calls := f_read_calls fil + 1,
                     fptr := fptr fil + length buffer\<rparr>"
  have r: "f_read fil BUFFER_SIZE = (FR_OK, buffer, fil')"
    unfolding fil'_def buffer_def rest_def using "1.prems" by (rule f_read_ok)
  show ?case
  proof (cases "length buffer < BUFFER_SIZE")
    case True
    then have "buffer = rest" "length rest div BUFFER_SIZE = 0"
      unfolding buffer_def by (rule chunk_last)+
    moreover from this True have "length rest < BUFFER_SIZE" by simp
    ultimately show ?thesis
      unfolding rest_def [symmetric]
      by (subst ReadAndVerify_loop.simps) (simp add: r fil'_def split: prod.split)
  next
    case False
    then have l: "length buffer = BUFFER_SIZE"
      "length rest = BUFFER_SIZE + length (drop BUFFER_SIZE rest)"
      "length rest div BUFFER_SIZE = Suc (length (drop BUFFER_SIZE rest) div BUFFER_SIZE)"
      unfolding buffer_def by (rule chunk_split)+
    have ok: "err fil' = FR_OK" using "1.prems" by (simp add: fil'_def)
    have d: "drop (fptr fil') (fdata fil') = drop BUFFER_SIZE rest"
      by (simp add: fil'_def l(1) rest_def add.commute)
    have sp: "rest = buffer @ drop BUFFER_SIZE rest"
      unfolding buffer_def by (rule append_take_drop_id [symmetric])
    obtain a' e' s' where w: "verify_buffer buffer a e s = (a', e', s')"
      by (cases "verify_buffer buffer a e s")
    have wr: "verify_buffer rest a e s = verify_buffer (drop BUFFER_SIZE rest) a' e' s'"
      by (subst sp) (simp add: verify_buffer_append w)
    have "ReadAndVerify_loop fil a e s = ReadAndVerify_loop fil' a' e' s'"
      using False by (subst ReadAndVerify_loop.simps) (simp add: r w)
    also have "\<dots> = (fst (verify_buffer (drop BUFFER_SIZE rest) a' e' s'),
        fst (snd (verify_buffer (drop BUFFER_SIZE rest) a' e' s')),
        fil'\<lparr>f_read_calls := f_read_calls fil'
              + length (drop BUFFER_SIZE rest) div BUFFER_SIZE + 1,
          fptr := fptr fil' + length (drop BUFFER_SIZE rest)\<rparr>,
        snd (snd (verify_buffer (drop BUFFER_SIZE rest) a' e' s')))"
      using "1.IH" [OF r [symmetric] refl _ w [symmetric] refl False ok] unfolding d by simp
    also have "\<dots> = (fst (verify_buffer rest a e s),
      fst (snd (verify_buffer rest a e s)),
      fil\<lparr>f_read_calls := f_read_calls fil + length rest div BUFFER_SIZE + 1,
          fptr := fptr fil + length rest\<rparr>,
      snd (snd (verify_buffer rest a e s)))"
      unfolding wr l(3) by (subst l(2)) (simp add: fil'_def l(1))
    finally show ?thesis unfolding rest_def .
  qed
qed

lemma VerifyErased_loop_run:
  "VerifyErased_loop i a e s =
     verify_buffer (replicate (MAX_EEPROM_ADDRESS_SPACE - i) 0xFF) a e s"
proof (induction i a e s rule: VerifyErased_loop.induct)
  case (1 i a e s)
  show ?case
  proof (cases "i < MAX_EEPROM_ADDRESS_SPACE")
    case False
    then show ?thesis by (subst VerifyErased_loop.simps) simp
  next
    case True
    then obtain n where n: "MAX_EEPROM_ADDRESS_SPACE - i = Suc n"
      "MAX_EEPROM_ADDRESS_SPACE - Suc i = n"
      by (cases "MAX_EEPROM_ADDRESS_SPACE - i") auto
    obtain x s1 where r: "EEPROM_readByte a s = (x, s1)" by (cases "EEPROM_readByte a s")
    show ?thesis
      using "1.IH"(1) [OF True r [symmetric]] "1.IH"(2) [OF True r [symmetric]] True
      by (subst VerifyErased_loop.simps) (simp add: r n)
  qed
qed

lemma opened_fields [simp]:
  "err (opened S) = FR_OK" "fptr (opened S) = 0" "fdata (opened S) = S"
  "f_read_calls (opened S) = 0"
  by (simp_all add: opened_def)

lemma oled_keeps [simp]:
  "write_strobe (oledDisplayMessages m1 m2 m3 m4 m5 s) = write_strobe s"
  "cmd (oledDisplayMessages m1 m2 m3 m4 m5 s) = cmd s"
  "mem (oledDisplayMessages m1 m2 m3 m4 m5 s) = mem s"
  "bus_log (oledDisplayMessages m1 m2 m3 m4 m5 s) = bus_log s"
  "write_mode (oledDisplayMessages m1 m2 m3 m4 m5 s) = write_mode s"
  "trace (oledDisplayMessages m1 m2 m3 m4 m5 s) = trace s @ [Oled_display [m1, m2, m3, m4, m5]]"
  by (simp_all add: oledDisplayMessages_def write_strobe_def write_mode_def)

lemma sleep_ms_keeps [simp]:
  "write_strobe (sleep_ms n s) = write_strobe s"
  "cmd (sleep_ms n s) = cmd s"
  "mem (sleep_ms n s) = mem s"
  "bus_log (sleep_ms n s) = bus_log s"
  "write_mode (sleep_ms n s) = write_mode s"
  "trace (sleep_ms n s) = trace s @ [Sleep_ms n]"
  by (simp_all add: sleep_ms_def write_strobe_def write_mode_def)

lemma WriteCurrentFile_run:
  assumes "\<not> write_strobe s" and "cmd s = Idle"
  shows "fst (EEPROM_WriteCurrentFile (opened S) s) = of_nat (length S)"
    and "f_read_calls (fst (snd (EEPROM_WriteCurrentFile (opened S) s)))
           = length S div BUFFER_SIZE + 1"
    and "write_mode (snd (snd (EEPROM_WriteCurrentFile (opened S) s)))"
    and "cmd (snd (snd (EEPROM_WriteCurrentFile (opened S) s))) = Idle"
    and "mem (snd (snd (EEPROM_WriteCurrentFile (opened S) s))) = programmed S 0 (mem s)"
    and "bus_log (snd (snd (EEPROM_WriteCurrentFile (opened S) s))) =
           bus_log s @ concat (map (\<lambda>i. unlock_write (of_nat i) (S ! i)) [0..<length S])"
proof -
  let ?s2 = "setWriteMode (oledDisplayMessages ''Writing File'' ''to EEPROM'' ''now...'' [] [] s)"
  have m: "write_mode ?s2" by (rule setWriteMode_mode)
  have c: "cmd ?s2 = Idle" "mem ?s2 = mem s" "bus_log ?s2 = bus_log s"
    using assms by (simp_all add: setWriteMode_chip)
  note w = write_buffer_run [OF m c(1), of S 0]
  show "fst (EEPROM_WriteCurrentFile (opened S) s) = of_nat (length S)"
    "f_read_calls (fst (snd (EEPROM_WriteCurrentFile (opened S) s)))
           = length S div BUFFER_SIZE + 1"
    "write_mode (snd (snd (EEPROM_WriteCurrentFile (opened S) s)))"
    "cmd (snd (snd (EEPROM_WriteCurrentFile (opened S) s))) = Idle"
    "mem (snd (snd (EEPROM_WriteCurrentFile (opened S) s))) = programmed S 0 (mem s)"
    "bus_log (snd (snd (EEPROM_WriteCurrentFile (opened S) s))) =
           bus_log s @ concat (map (\<lambda>i. unlock_write (of_nat i) (S ! i)) [0..<length S])"
    using w c
    by (simp_all add: EEPROM_WriteCurrentFile_def Let_def WriteCurrentFile_loop_run)
qed

lemma mismatches_0:
  "mismatches m 0 S = filter (\<lambda>i. m (of_nat i) \<noteq> S ! i) [0..<length S]"
  by (simp add: mismatches_def ucast_of_nat_19)

lemma ReadAndVerify_run:
  assumes "\<not> write_strobe s"
  shows "fst (EEPROM_ReadAndVerify (opened S) s) = of_nat (length S)"
    and "fst (snd (EEPROM_ReadAndVerify (opened S) s)) =
           of_nat (length (filter (\<lambda>i. mem s (of_nat i) \<noteq> S ! i) [0..<length S]))"
    and "f_read_calls (fst (snd (snd (EEPROM_ReadAndVerify (opened S) s))))
           = length S div BUFFER_SIZE + 1"
    and "trace (snd (snd (snd (EEPROM_ReadAndVerify (opened S) s)))) =
           trace (setReadMode (oledDisplayMessages ''Reading file'' ''from EEPROM'' ''now...''
                                  [] [] s))
           @ concat (map (\<lambda>i. verify_sequence (of_nat i) (S ! i) (mem s (of_nat i)))
                       [0..<length S])
           @ [Oled_display [''Done reading EEPROM!'',
                ''Addrs:  0x'' @ format_X 5 (unat (of_nat (length S) :: u32)),
                ''Num errors:  '' @ format_d (of_nat (length
                     (filter (\<lambda>i. mem s (of_nat i) \<noteq> S ! i) [0..<length S]))), [], []]]"
    and "mem (snd (snd (snd (EEPROM_ReadAndVerify (opened S) s)))) = mem s"
    and "bus_log (snd (snd (snd (EEPROM_ReadAndVerify (opened S) s)))) = bus_log s"
proof -
  let ?s2 = "setReadMode (oledDisplayMessages ''Reading file'' ''from EEPROM'' ''now...'' [] [] s)"
  have m: "read_mode ?s2" by (rule setReadMode_mode)
  have c: "mem ?s2 = mem s" "bus_log ?s2 = bus_log s"
    using assms by (simp_all add: setReadMode_chip)
  note v = verify_buffer_run [OF m, of S 0 0]
  show "fst (EEPROM_ReadAndVerify (opened S) s) = of_nat (length S)"
    "fst (snd (EEPROM_ReadAndVerify (opened S) s)) =
           of_nat (length (filter (\<lambda>i. mem s (of_nat i) \<noteq> S ! i) [0..<length S]))"
    "f_read_calls (fst (snd (snd (EEPROM_ReadAndVerify (opened S) s))))
           = length S div BUFFER_SIZE + 1"
    "trace (snd (snd (snd (EEPROM_ReadAndVerify (opened S) s)))) =
           trace ?s2
           @ concat (map (\<lambda>i. verify_sequence (of_nat i) (S ! i) (mem s (of_nat i)))
                       [0..<length S])
           @ [Oled_display [''Done reading EEPROM!'',
                ''Addrs:  0x'' @ format_X 5 (unat (of_nat (length S) :: u32)),
                ''Num errors:  '' @ format_d (of_nat (length
                     (filter (\<lambda>i. mem s (of_nat i) \<noteq> S ! i) [0..<length S]))), [], []]]"
    "mem (snd (snd (snd (EEPROM_ReadAndVerify (opened S) s)))) = mem s"
    "bus_log (snd (snd (snd (EEPROM_ReadAndVerify (opened S) s)))) = bus_log s"
    using v c
    by (simp_all add: EEPROM_ReadAndVerify_def Let_def ReadAndVerify_loop_run mismatches_0
        verify_report_def ucast_of_nat_19)
qed

subsection \<open>Whole runs\<close>

lemma programmed_matches:
  assumes "length S \<le> 2 ^ 19"
  shows "filter (\<lambda>i. programmed S 0 m (of_nat i) \<noteq> S ! i) [0..<length S] = []"
proof -
  have "programmed S 0 m (of_nat i) = S ! i" if "i < length S" for i
    using programmed_at [OF assms that, of 0 m] by (simp add: ucast_of_nat_19)
  then show ?thesis by (simp add: filter_empty_conv)
qed

lemma card_19_word:
  "card {a :: 19 word. P a} = length (filter (\<lambda>i. P (of_nat i)) [0..<2 ^ 19])"
proof -
  let ?I = "{i. i < 2 ^ 19 \<and> P (of_nat i :: 19 word)}"
  have inj: "inj_on (of_nat :: nat \<Rightarrow> 19 word) ?I"
    by (rule inj_onI) (simp add: word_of_nat_eq_iff take_bit_nat_eq_self)
  have eq: "{a :: 19 word. P a} = of_nat ` ?I"
  proof (intro set_eqI iffI)
    fix a :: "19 word" assume "a \<in> {a. P a}"
    moreover have "unat a < 2 ^ 19" using unsigned_less [of a] by simp
    moreover have "a = of_nat (unat a)" by simp
    ultimately show "a \<in> of_nat ` ?I" by (intro image_eqI [of _ _ "unat a"]) simp_all
  qed auto
  have "card (of_nat ` ?I :: 19 word set) = card ?I"
    by (rule card_image [OF inj])
  with eq have "card {a :: 19 word. P a} = card ?I"
    by (simp only:)
  also have "?I = set (filter (\<lambda>i. P (of_nat i)) [0..<2 ^ 19])"
    by auto
  also have "card \<dots> = length (filter (\<lambda>i. P (of_nat i :: 19 word)) [0..<2 ^ 19])"
    by (rule distinct_card) simp
  finally show ?thesis .
qed

lemma VerifyErased_run:
  assumes "\<not> write_strobe s"
  shows "fst (EEPROM_VerifyErased s) = of_nat MAX_EEPROM_ADDRESS_SPACE"
    and "fst (snd (EEPROM_VerifyErased s)) =
           of_nat (length (filter (\<lambda>i. mem s (of_nat i) \<noteq> 0xFF) [0..<MAX_EEPROM_ADDRESS_SPACE]))"
    and "trace (snd (snd (EEPROM_VerifyErased s))) =
           trace (setReadMode (oledDisplayMessages ''Verifying'' ''EEPROM is'' ''erased now...''
                                  [] [] s))
           @ concat (map (\<lambda>i. verify_sequence (of_nat i) 0xFF (mem s (of_nat i)))
                       [0..<MAX_EEPROM_ADDRESS_SPACE])
           @ [Oled_display [''Done reading EEPROM!'',
                ''Addrs:  0x'' @ format_X 5 (unat (of_nat MAX_EEPROM_ADDRESS_SPACE :: u32)),
                ''Num errors:  '' @ format_d (of_nat (length
                   (filter (\<lambda>i. mem s (of_nat i) \<noteq> 0xFF) [0..<MAX_EEPROM_ADDRESS_SPACE]))),
                [], []]]"
proof -
  let ?N = MAX_EEPROM_ADDRESS_SPACE
  let ?s2 = "setReadMode (oledDisplayMessages ''Verifying'' ''EEPROM is'' ''erased now...'' [] [] s)"
  have m: "read_mode ?s2" by (rule setReadMode_mode)
  have c: "mem ?s2 = mem s"
    using assms by (simp add: setReadMode_chip)
  have f: "mismatches (mem s) 0 (replicate ?N 0xFF) =
           filter (\<lambda>i. mem s (of_nat i) \<noteq> 0xFF) [0..<?N]"
    unfolding mismatches_0 by (rule filter_cong) simp_all
  have t: "map (\<lambda>i. verify_sequence (of_nat i) (replicate ?N 0xFF ! i) (mem s (of_nat i)))
              [0..<?N] =
           map (\<lambda>i. verify_sequence (of_nat i) 0xFF (mem s (of_nat i))) [0..<?N]"
    by (rule map_cong) simp_all
  note v = verify_buffer_run [OF m, of "replicate ?N 0xFF" 0 0, unfolded c f]
  have "trace (snd (snd (verify_buffer (replicate ?N 0xFF) 0 0 ?s2))) =
       trace ?s2 @ concat (map (\<lambda>i. verify_sequence (of_nat i) (replicate ?N 0xFF ! i)
                                       (mem s (of_nat i))) [0..<?N])"
    using v by (simp add: ucast_of_nat_19)
  then have v7: "trace (snd (snd (verify_buffer (replicate ?N 0xFF) 0 0 ?s2))) =
       trace ?s2 @ concat (map (\<lambda>i. verify_sequence (of_nat i) 0xFF (mem s (of_nat i))) [0..<?N])"
    by (simp only: t)
  show "fst (EEPROM_VerifyErased s) = of_nat ?N"
    "fst (snd (EEPROM_VerifyErased s)) =
           of_nat (length (filter (\<lambda>i. mem s (of_nat i) \<noteq> 0xFF) [0..<?N]))"
    "trace (snd (snd (EEPROM_VerifyErased s))) =
           trace ?s2
           @ concat (map (\<lambda>i. verify_sequence (of_nat i) 0xFF (mem s (of_nat i))) [0..<?N])
           @ [Oled_display [''Done reading EEPROM!'',
                ''Addrs:  0x'' @ format_X 5 (unat (of_nat ?N :: u32)),
                ''Num errors:  '' @ format_d (of_nat (length
                   (filter (\<lambda>i. mem s (of_nat i) \<noteq> 0xFF) [0..<?N]))),
                [], []]]"
    using v v7
    by (simp_all add: EEPROM_VerifyErased_def Let_def VerifyErased_loop_run verify_report_def
        case_prod_beta)
qed

lemma write_buffer_cursor: "fst (write_buffer bs a s) = a + of_nat (length bs)"
  by (induction bs arbitrary: a s) (simp_all add: add.assoc)

lemma verify_buffer_cursor: "fst (verify_buffer bs a e s) = a + of_nat (length bs)"
  by (induction bs arbitrary: a e s) (simp_all add: add.assoc split: prod.split)

lemma write_buffer_bus:
  "write_mode s \<Longrightarrow>
   write_mode (snd (write_buffer bs a s))
   \<and> bus_log (snd (write_buffer bs a s)) =
       bus_log s @ concat (map (\<lambda>i. unlock_write (a + of_nat i) (bs ! i)) [0..<length bs])"
proof (induction bs arbitrary: a s)
  case Nil
  then show ?case by simp
next
  case (Cons b bs)
  have 1: "write_mode (EEPROM_writeByte a b s)"
    using Cons.prems by (rule writeByte_mode)
  from Cons.IH [OF 1, of "a + 1"] Cons.prems
  show ?case
    by (simp add: upt_0_Suc comp_def writeByte_bus_log unlock_write_def add.assoc
        del: upt_Suc)
qed

lemma WriteCurrentFile_calls:
  "fst (EEPROM_WriteCurrentFile (opened S) s) = of_nat (length S)"
  "f_read_calls (fst (snd (EEPROM_WriteCurrentFile (opened S) s))) = length S div BUFFER_SIZE + 1"
  "fptr (fst (snd (EEPROM_WriteCurrentFile (opened S) s))) = length S"
  by (simp_all add: EEPROM_WriteCurrentFile_def Let_def WriteCurrentFile_loop_run
      write_buffer_cursor)

lemma ReadAndVerify_calls:
  "fst (EEPROM_ReadAndVerify (opened S) s) = of_nat (length S)"
  "f_read_calls (fst (snd (snd (EEPROM_ReadAndVerify (opened S) s))))
     = length S div BUFFER_SIZE + 1"
  "fptr (fst (snd (snd (EEPROM_ReadAndVerify (opened S) s)))) = length S"
  by (simp_all add: EEPROM_ReadAndVerify_def Let_def ReadAndVerify_loop_run
      verify_buffer_cursor)

lemma WriteCurrentFile_bus_log:
  assumes "\<not> write_strobe s"
  shows "bus_log (snd (snd (EEPROM_WriteCurrentFile (opened S) s))) =
           bus_log s @ concat (map (\<lambda>i. unlock_write (of_nat i) (S ! i)) [0..<length S])"
proof -
  let ?s2 = "setWriteMode (oledDisplayMessages ''Writing File'' ''to EEPROM'' ''now...'' [] [] s)"
  have m: "write_mode ?s2" by (rule setWriteMode_mode)
  have c: "bus_log ?s2 = bus_log s"
    using assms by (simp add: setWriteMode_chip)
  show ?thesis
    using write_buffer_bus [OF m, of S 0] c
    by (simp add: EEPROM_WriteCurrentFile_def Let_def WriteCurrentFile_loop_run)
qed

lemma last_unlock_write:
  assumes "S \<noteq> []"
  shows "last (concat (map (\<lambda>i. unlock_write (of_nat i) (S ! i)) [0..<length S])) =
           (ucast (of_nat (length S - 1) :: u32), last S)"
proof -
  from assms obtain ys y where S: "S = ys @ [y]" by (cases S rule: rev_cases) auto
  show ?thesis
    by (simp add: S unlock_write_def nth_append)
qed

lemma unat_bus_address:
  assumes "i < 2 ^ 19"
  shows "unat (ucast (of_nat i :: u32) :: 24 word) = i"
proof -
  have "unat (ucast (of_nat i :: u32) :: 24 word) = unat (of_nat i :: u32) mod 2 ^ 24"
    by (simp add: unsigned_ucast_eq take_bit_eq_mod)
  also have "unat (of_nat i :: u32) = i"
    using assms by (simp add: unat_of_nat)
  finally show ?thesis using assms by simp
qed

lemma unlock_write_in_range:
  assumes "i < 2 ^ 19"
  shows "list_all (\<lambda>(a, d). unat a < 2 ^ 19) (unlock_write (of_nat i) b)"
  using assms by (simp add: unlock_write_def unat_bus_address)

lemma write_buffer_trace:
  "trace (snd (write_buffer bs a s)) =
     trace s @ concat (map (\<lambda>i. unlock_write_sequence (a + of_nat i) (bs ! i)) [0..<length bs])"
proof (induction bs arbitrary: a s)
  case Nil
  then show ?case by simp
next
  case (Cons b bs)
  from Cons.IH [of "a + 1" "EEPROM_writeByte a b s"]
  show ?case
    by (simp add: upt_0_Suc comp_def writeByte_trace unlock_write_sequence_def add.assoc
        del: upt_Suc)
qed

lemma WriteCurrentFile_trace:
  "trace (snd (snd (EEPROM_WriteCurrentFile (opened S) s))) =
     trace s @ [Oled_display [''Writing File'', ''to EEPROM'', ''now...'', [], []]]
       @ write_mode_sequence
       @ concat (map (\<lambda>i. unlock_write_sequence (of_nat i) (S ! i)) [0..<length S])
       @ [Oled_display [''Done writing EEPROM!'', ''number of'',
            ''Addrs:  0x'' @ format_X 5 (unat (of_nat (length S) :: u32)), [], []],
          Sleep_ms 5000]"
  using write_buffer_trace [of S 0]
  by (simp add: EEPROM_WriteCurrentFile_def Let_def WriteCurrentFile_loop_run
      write_buffer_cursor setWriteMode_trace)

section \<open>The address shifter\<close>

text \<open>
  C7. \<^verbatim>\<open>shiftAddress(addr)\<close> puts the address on the data line least significant bit
  first, one bit per clock pulse, \<open>ADDRESS_LINES\<close> pulses in all, and then pulses the latch
  line once. For address 0 every bit shifted is 0; for \<open>2^19 - 1\<close> the 19 address bits
  shifted are 1 (and the five bits after them 0). The latched register holds the address
  afterwards, whatever it held before, so shifting the same value twice latches the same
  state.
\<close>

theorem shiftAddress_serializes:
  "trace (shiftAddress addr s) =
     trace s @ [Gpio_put LATCH_PIN_NUMBER False, Gpio_put DATA_PIN_NUMBER False,
                Gpio_put CLOCK_PIN_NUMBER False]
       @ concat (map clock_sequence (address_bits addr))
       @ [Gpio_put LATCH_PIN_NUMBER True, Nop, Gpio_put LATCH_PIN_NUMBER False, Nop]
   \<and> address_bits addr = map (bit addr) [0..<ADDRESS_LINES]
   \<and> length (address_bits addr) = ADDRESS_LINES
   \<and> address_bits 0 = replicate ADDRESS_LINES False
   \<and> address_bits (2 ^ 19 - 1) = replicate 19 True @ replicate (ADDRESS_LINES - 19) False
   \<and> latched (shiftAddress addr s) = ucast addr
   \<and> latched (shiftAddress addr (shiftAddress addr s)) = latched (shiftAddress addr s)"
  using address_bits_0 address_bits_max [unfolded ADDRESS_LINES_def]
  by (simp add: shiftAddress_eq shift_sequence_def address_bits_def ADDRESS_LINES_def)

theorem shiftAddress_serializes_witness:
  "trace (shiftAddress 5 hw_after_setup) =
     [Gpio_put LATCH_PIN_NUMBER False, Gpio_put DATA_PIN_NUMBER False,
                Gpio_put CLOCK_PIN_NUMBER False]
       @ concat (map clock_sequence (address_bits 5))
       @ [Gpio_put LATCH_PIN_NUMBER True, Nop, Gpio_put LATCH_PIN_NUMBER False, Nop]
   \<and> latched (shiftAddress 5 hw_after_setup) = 5"
  using shiftAddress_serializes [of 5 hw_after_setup]
  by (simp add: hw_after_setup_def)

text \<open>
  C10. \<^verbatim>\<open>shiftAddress\<close> depends only on the low 24 bits of its argument: the whole
  hardware state it leaves, the pin log and the latched register included, is the one
  \<open>shiftAddress (a mod 2^24)\<close> leaves, and two addresses congruent modulo \<open>2^24\<close> cannot
  be told apart.
\<close>

theorem shiftAddress_mod_2_24:
  "shiftAddress a s = shiftAddress (a mod 2 ^ 24) s
   \<and> trace (shiftAddress a s) = trace (shiftAddress (a mod 2 ^ 24) s)
   \<and> latched (shiftAddress a s) = latched (shiftAddress (a mod 2 ^ 24) s)
   \<and> (a mod 2 ^ 24 = b mod 2 ^ 24 \<longrightarrow> shiftAddress a s = shiftAddress b s)"
proof -
  have m: "x mod 2 ^ 24 = take_bit 24 x" for x :: u32
    by (simp add: take_bit_eq_mod)
  have "shiftAddress a s = shiftAddress (a mod 2 ^ 24) s"
    unfolding m by (rule shiftAddress_low_bits) simp
  moreover have "shiftAddress a s = shiftAddress b s" if "a mod 2 ^ 24 = b mod 2 ^ 24"
    using that unfolding m by (rule shiftAddress_low_bits)
  ultimately show ?thesis by simp
qed

theorem shiftAddress_mod_2_24_witness:
  "(0x1000005 :: u32) mod 2 ^ 24 = 5 mod 2 ^ 24
   \<and> shiftAddress 0x1000005 hw_after_setup = shiftAddress 5 hw_after_setup"
  using shiftAddress_mod_2_24 [of "0x1000005" hw_after_setup 5]
  by simp

section \<open>The command sequences\<close>

text \<open>
  C3. In write mode, \<^verbatim>\<open>EEPROM_writeByte(addr, data)\<close> issues exactly four bus writes,
  back to back: its pin log is the log of \<open>write(0x5555, 0xAA)\<close>, \<open>write(0x2AAA, 0x55)\<close>,
  \<open>write(0x5555, 0xA0)\<close> and \<open>write(addr, data)\<close> and nothing else, and the chip sees
  exactly the four write cycles (0x5555, 0xAA), (0x2AAA, 0x55), (0x5555, 0xA0),
  (addr, data), in this order, the address being the one the 24 address lines carry.
\<close>

theorem EEPROM_writeByte_four_writes:
  assumes "write_mode s"
  shows "trace (EEPROM_writeByte addr data s) =
           trace s @ write_sequence 0x5555 0xAA @ write_sequence 0x2AAA 0x55
             @ write_sequence 0x5555 0xA0 @ write_sequence addr data
       \<and> bus_log (EEPROM_writeByte addr data s) =
           bus_log s @ [(0x5555, 0xAA), (0x2AAA, 0x55), (0x5555, 0xA0), (ucast addr, data)]"
  using assms by (simp add: writeByte_trace writeByte_bus_log)

theorem EEPROM_writeByte_four_writes_witness:
  "write_mode (setWriteMode hw_after_setup)
   \<and> bus_log (EEPROM_writeByte 0x12345 0x5A (setWriteMode hw_after_setup)) =
       bus_log (setWriteMode hw_after_setup)
         @ [(0x5555, 0xAA), (0x2AAA, 0x55), (0x5555, 0xA0), (0x12345, 0x5A)]"
  using EEPROM_writeByte_four_writes [OF setWriteMode_mode, of "0x12345" "0x5A" hw_after_setup]
    setWriteMode_mode [of hw_after_setup]
  by simp

text \<open>
  C1. The round trip: in write mode, with no command pending in the chip, the unlocked
  write of byte \<open>b\<close> to address \<open>a\<close>, then the switch to read mode, then
  \<^verbatim>\<open>EEPROM_readByte(a)\<close> returns \<open>b\<close>. The chip is the one modelled above: a completed
  unlocked write stores its byte at its address. The statement holds for every 32-bit
  \<open>a\<close> (the chip decodes its low 19 bits), so for every address in \<open>[0, 2^19 - 1]\<close>.
\<close>

theorem write_then_read_roundtrip:
  assumes "write_mode s" and "cmd s = Idle"
  shows "fst (EEPROM_readByte a (setReadMode (EEPROM_writeByte a b s))) = b"
proof -
  let ?w = "EEPROM_writeByte a b s"
  have i: "\<not> write_strobe ?w" using assms(1) by (rule write_mode_not_strobe_after)
  have "mem (setReadMode ?w) = mem ?w" using i by (rule setReadMode_chip)
  also have "\<dots> = (mem s)(ucast a := b)" using assms by (rule writeByte_mem)
  finally have m: "mem (setReadMode ?w) (ucast a) = b" by simp
  show ?thesis
    by (simp add: EEPROM_readByte_eq [OF setReadMode_mode] m)
qed

theorem write_then_read_roundtrip_witness:
  "write_mode (setWriteMode hw_after_setup)
   \<and> cmd (setWriteMode hw_after_setup) = Idle
   \<and> fst (EEPROM_readByte 0x12345 (setReadMode
        (EEPROM_writeByte 0x12345 0x5A (setWriteMode hw_after_setup)))) = 0x5A"
proof -
  have i: "\<not> write_strobe hw_after_setup"
    by (simp add: hw_after_setup_def write_strobe_def)
  have c: "cmd (setWriteMode hw_after_setup) = Idle"
    by (simp add: setWriteMode_chip [OF i]) (simp add: hw_after_setup_def)
  show ?thesis
    using write_then_read_roundtrip [OF setWriteMode_mode c, of "0x12345" "0x5A"] c
      setWriteMode_mode [of hw_after_setup]
    by simp
qed

text \<open>
  C4. Entered with no write cycle in progress (so in particular in write mode, where /CE
  and /WE are high), \<^verbatim>\<open>EEPROM_chipErase\<close> issues exactly the six bus writes
  (0x5555, 0xAA), (0x2AAA, 0x55), (0x5555, 0x80), (0x5555, 0xAA), (0x2AAA, 0x55),
  (0x5555, 0x10), in this order: after the display message and the (repeated) entry into
  write mode its pin log is the six write sequences with nothing between them. After the
  last pin access it sleeps 25 us and then 1000 ms before it returns, which is more than
  the 100 ms the erase cycle can take.
\<close>

theorem EEPROM_chipErase_sequence:
  assumes "\<not> write_strobe s"
  shows "bus_log (EEPROM_chipErase s) =
           bus_log s @ [(0x5555, 0xAA), (0x2AAA, 0x55), (0x5555, 0x80),
                        (0x5555, 0xAA), (0x2AAA, 0x55), (0x5555, 0x10)]
       \<and> trace (EEPROM_chipErase s) =
           trace s @ [Oled_display [''Erasing'', ''EEPROM'', ''now...'', [], []]]
             @ write_mode_sequence
             @ write_sequence 0x5555 0xAA @ write_sequence 0x2AAA 0x55
             @ write_sequence 0x5555 0x80 @ write_sequence 0x5555 0xAA
             @ write_sequence 0x2AAA 0x55 @ write_sequence 0x5555 0x10
             @ [Printf (''Chip erase complete!'' @ [CHR 0x0A]),
                Oled_display [''EEPROM'', ''erase'', ''complete!'', ''Waiting'', ''1 second.''],
                Sleep_ms 1000]
       \<and> trailing_wait_us (trace (EEPROM_chipErase s)) = 1000025
       \<and> 100 * 1000 \<le> trailing_wait_us (trace (EEPROM_chipErase s))"
  using chipErase_bus_log [OF assms] chipErase_trace [of s] chipErase_wait [of s]
  by simp

theorem EEPROM_chipErase_sequence_witness:
  "write_mode (setWriteMode hw_after_setup)
   \<and> \<not> write_strobe (setWriteMode hw_after_setup)
   \<and> bus_log (EEPROM_chipErase (setWriteMode hw_after_setup)) =
       bus_log (setWriteMode hw_after_setup)
         @ [(0x5555, 0xAA), (0x2AAA, 0x55), (0x5555, 0x80),
            (0x5555, 0xAA), (0x2AAA, 0x55), (0x5555, 0x10)]
   \<and> trailing_wait_us (trace (EEPROM_chipErase (setWriteMode hw_after_setup))) = 1000025"
  using EEPROM_chipErase_sequence [OF write_mode_idle [OF setWriteMode_mode], of hw_after_setup]
    setWriteMode_mode [of hw_after_setup] write_mode_idle [OF setWriteMode_mode, of hw_after_setup]
  by blast

section \<open>The program and verify loops\<close>

text \<open>
  C2. Program, then verify. From a state with no write cycle in progress and no command
  pending in the chip, and for a stream \<open>S\<close> of at most \<open>2^19\<close> bytes: after
  \<^verbatim>\<open>EEPROM_WriteCurrentFile\<close> has run on \<open>S\<close>, \<^verbatim>\<open>EEPROM_ReadAndVerify\<close> on a stream
  freshly opened on the same bytes counts 0 errors and ends with its address cursor at
  the length of \<open>S\<close>. The chip is the one modelled above: each byte written reads
  back unchanged.
\<close>

theorem program_then_verify:
  assumes "\<not> write_strobe s" and "cmd s = Idle" and "length S \<le> 2 ^ 19"
  shows "let s1 = snd (snd (EEPROM_WriteCurrentFile (opened S) s));
             r = EEPROM_ReadAndVerify (opened S) s1;
             address = fst r; errors = fst (snd r)
         in errors = 0 \<and> address = of_nat (length S) \<and> unat address = length S
          \<and> fst (EEPROM_WriteCurrentFile (opened S) s) = of_nat (length S)"
proof -
  let ?s1 = "snd (snd (EEPROM_WriteCurrentFile (opened S) s))"
  note w = WriteCurrentFile_run [OF assms(1,2), of S]
  have i: "\<not> write_strobe ?s1" using w(3) by (rule write_mode_idle)
  note r = ReadAndVerify_run [OF i, of S]
  have u: "unat (of_nat (length S) :: u32) = length S"
    using assms(3) by (simp add: unat_of_nat)
  show ?thesis
    unfolding Let_def r(1,2) w(1,5) programmed_matches [OF assms(3)] using u by simp
qed

theorem program_then_verify_witness:
  "\<not> write_strobe hw_after_setup \<and> cmd hw_after_setup = Idle
   \<and> length [0x00 :: u8, 0xFF, 0x3C, 0x3C, 0x01] \<le> 2 ^ 19
   \<and> fst (snd (EEPROM_ReadAndVerify (opened [0x00, 0xFF, 0x3C, 0x3C, 0x01])
         (snd (snd (EEPROM_WriteCurrentFile (opened [0x00, 0xFF, 0x3C, 0x3C, 0x01])
            hw_after_setup))))) = 0
   \<and> fst (EEPROM_ReadAndVerify (opened [0x00, 0xFF, 0x3C, 0x3C, 0x01])
         (snd (snd (EEPROM_WriteCurrentFile (opened [0x00, 0xFF, 0x3C, 0x3C, 0x01])
            hw_after_setup)))) = 5"
proof -
  have i: "\<not> write_strobe hw_after_setup" "cmd hw_after_setup = Idle"
    by (simp_all add: hw_after_setup_def write_strobe_def)
  have l: "length [0x00 :: u8, 0xFF, 0x3C, 0x3C, 0x01] \<le> 2 ^ 19" by simp
  show ?thesis
    using program_then_verify [OF i l] i unfolding Let_def by simp
qed

text \<open>
  C5. \<^verbatim>\<open>EEPROM_ReadAndVerify\<close> never stops at a mismatch. For every stream \<open>S\<close> and
  every chip contents, its log after entering read mode is, for each position
  \<open>i = 0, 1, ...\<close> up to the end of \<open>S\<close> in turn, the read of address \<open>i\<close>, followed,
  exactly when the chip byte differs from \<open>S ! i\<close>, by the report of the address \<open>i\<close>,
  the expected byte \<open>S ! i\<close> and the actual chip byte; then the final display. The
  final cursor is the length of \<open>S\<close> and the error count is the number of differing
  positions (both as 32-bit values; exactly so below \<open>2^31\<close> bytes). With one differing
  byte the count is 1.
\<close>

theorem ReadAndVerify_counts_every_mismatch:
  assumes "\<not> write_strobe s"
  shows "let r = EEPROM_ReadAndVerify (opened S) s;
             address = fst r; errors = fst (snd r); s' = snd (snd (snd r));
             differing = filter (\<lambda>i. mem s (of_nat i) \<noteq> S ! i) [0..<length S]
         in address = of_nat (length S)
          \<and> errors = of_nat (length differing)
          \<and> trace s' =
              trace (setReadMode (oledDisplayMessages ''Reading file'' ''from EEPROM''
                                    ''now...'' [] [] s))
              @ concat (map (\<lambda>i. verify_sequence (of_nat i) (S ! i) (mem s (of_nat i)))
                          [0..<length S])
              @ [Oled_display [''Done reading EEPROM!'',
                   ''Addrs:  0x'' @ format_X 5 (unat address),
                   ''Num errors:  '' @ format_d errors, [], []]]
          \<and> (length S < 2 ^ 31 \<longrightarrow>
                unat address = length S \<and> sint errors = int (length differing))
          \<and> (length differing = 1 \<longrightarrow> errors = 1)"
proof -
  note r = ReadAndVerify_run [OF assms, of S]
  let ?d = "filter (\<lambda>i. mem s (of_nat i) \<noteq> S ! i) [0..<length S]"
  have d: "length ?d \<le> length S"
    using length_filter_le [of _ "[0..<length S]"] by simp
  have u: "unat (of_nat (length S) :: u32) = length S" if "length S < 2 ^ 31"
    using that by (simp add: unat_of_nat)
  have sg: "sint (of_nat (length ?d) :: u32) = int (length ?d)" if "length S < 2 ^ 31"
  proof -
    from that d have "length ?d < 2 ^ 31" by simp
    then have "signed_take_bit 31 (int (length ?d)) = int (length ?d)"
      by (intro signed_take_bit_int_eq_self) simp_all
    then show ?thesis
      by (simp add: signed_of_nat)
  qed
  show ?thesis
    unfolding Let_def r using u sg by simp
qed

theorem ReadAndVerify_counts_every_mismatch_witness:
  "\<not> write_strobe corrupted_chip
   \<and> fst (EEPROM_ReadAndVerify (opened [0x00, 0xFF, 0x3C, 0x3C, 0x01]) corrupted_chip) = 5
   \<and> fst (snd (EEPROM_ReadAndVerify (opened [0x00, 0xFF, 0x3C, 0x3C, 0x01]) corrupted_chip)) = 1"
proof -
  have i: "\<not> write_strobe corrupted_chip"
    by (simp add: corrupted_chip_def hw_after_setup_def write_strobe_def)
  have d: "filter (\<lambda>i. mem corrupted_chip (of_nat i) \<noteq> [0x00, 0xFF, 0x3C, 0x3C, 0x01] ! i)
             [0..<length [0x00 :: u8, 0xFF, 0x3C, 0x3C, 0x01]] = [2]"
    by (simp add: corrupted_chip_def upt_rec)
  show ?thesis
    using ReadAndVerify_counts_every_mismatch [OF i, of "[0x00, 0xFF, 0x3C, 0x3C, 0x01]"] i
    unfolding Let_def d by simp
qed

text \<open>
  C6. \<^verbatim>\<open>EEPROM_VerifyErased\<close> enters read mode and then reads the addresses
  \<open>0, 1, ..., 2^19 - 1\<close>, each once, in this order, expecting 0xFF: a byte that is not
  0xFF is reported and the scan goes on. The cursor ends at \<open>2^19\<close> and the error count
  is the number of addresses of the chip whose byte is not 0xFF.
\<close>

theorem VerifyErased_scans_whole_chip:
  assumes "\<not> write_strobe s"
  shows "let r = EEPROM_VerifyErased s;
             address = fst r; errors = fst (snd r); s' = snd (snd r)
         in read_mode (setReadMode (oledDisplayMessages ''Verifying'' ''EEPROM is''
                                      ''erased now...'' [] [] s))
          \<and> trace s' =
              trace (setReadMode (oledDisplayMessages ''Verifying'' ''EEPROM is''
                                    ''erased now...'' [] [] s))
              @ concat (map (\<lambda>i. verify_sequence (of_nat i) 0xFF (mem s (of_nat i)))
                          [0..<MAX_EEPROM_ADDRESS_SPACE])
              @ [Oled_display [''Done reading EEPROM!'',
                   ''Addrs:  0x'' @ format_X 5 (unat address),
                   ''Num errors:  '' @ format_d errors, [], []]]
          \<and> unat address = 2 ^ 19
          \<and> unat errors = card {a. mem s a \<noteq> 0xFF}
          \<and> sint errors = int (card {a. mem s a \<noteq> 0xFF})"
proof -
  note r = VerifyErased_run [OF assms]
  let ?d = "filter (\<lambda>i. mem s (of_nat i) \<noteq> 0xFF) [0..<MAX_EEPROM_ADDRESS_SPACE]"
  have c: "length ?d = card {a. mem s a \<noteq> 0xFF}"
    by (simp add: card_19_word [of "\<lambda>a. mem s a \<noteq> 0xFF"] MAX_EEPROM_ADDRESS_SPACE_def)
  have "length ?d \<le> length [0..<MAX_EEPROM_ADDRESS_SPACE]" by (rule length_filter_le)
  then have d: "length ?d \<le> 2 ^ 19" by (simp add: MAX_EEPROM_ADDRESS_SPACE_def)
  then have u: "unat (of_nat (length ?d) :: u32) = length ?d"
    by (simp add: unat_of_nat)
  from d have "signed_take_bit 31 (int (length ?d)) = int (length ?d)"
    by (intro signed_take_bit_int_eq_self) simp_all
  then have sg: "sint (of_nat (length ?d) :: u32) = int (length ?d)"
    by (simp add: signed_of_nat)
  have a: "unat (of_nat MAX_EEPROM_ADDRESS_SPACE :: u32) = 2 ^ 19"
    by (simp add: MAX_EEPROM_ADDRESS_SPACE_def)
  show ?thesis
    unfolding Let_def r using u sg a c by (simp add: setReadMode_mode)
qed

theorem VerifyErased_scans_whole_chip_witness:
  "\<not> write_strobe hw_after_setup
   \<and> unat (fst (EEPROM_VerifyErased hw_after_setup)) = 2 ^ 19
   \<and> unat (fst (snd (EEPROM_VerifyErased hw_after_setup))) = 0"
proof -
  have i: "\<not> write_strobe hw_after_setup"
    by (simp add: hw_after_setup_def write_strobe_def)
  have e: "{a. mem hw_after_setup a \<noteq> 0xFF} = {}"
    by (simp add: hw_after_setup_def)
  show ?thesis
    using VerifyErased_scans_whole_chip [OF i] i unfolding Let_def e by simp
qed

text \<open>
  C8, as the claim states it, fails: on a stream of exactly 1024 bytes (one full chunk)
  the program loop and the verify loop each call \<^verbatim>\<open>f_read\<close> twice. The first call
  returns the full chunk, which is not shorter than the buffer, so the loop asks again
  and only the empty second chunk ends it.
\<close>

theorem chunk_boundary_extra_pass_counterexample:
  "length (replicate 1024 (0 :: u8)) = 1 * BUFFER_SIZE
   \<and> f_read_calls (fst (snd (EEPROM_WriteCurrentFile (opened (replicate 1024 0))
        hw_after_setup))) = 2
   \<and> f_read_calls (fst (snd (snd (EEPROM_ReadAndVerify (opened (replicate 1024 0))
        hw_after_setup)))) = 2"
  by (simp add: WriteCurrentFile_calls ReadAndVerify_calls BUFFER_SIZE_def)

text \<open>
  C8, amended. For every stream whose length is \<open>k\<close> full chunks, \<open>k > 0\<close>, the program
  loop and the verify loop terminate after \<open>k + 1\<close> chunk requests, with the whole stream
  consumed and the final cursor equal to the stream length. The request made once the
  \<open>k\<close> chunks have been read returns no bytes, and that pass touches no address: the pin
  log of the program run holds one unlocked write per byte of the stream and nothing
  more before the closing display, the chip sees exactly those write cycles, and the pin
  log of the verify run holds one read (with its report, if any) per byte of the stream
  and nothing more, with no write cycle at all.
\<close>

theorem chunk_boundary_one_more_request:
  assumes "length S = k * BUFFER_SIZE" and "0 < k"
  shows "f_read_calls (fst (snd (EEPROM_WriteCurrentFile (opened S) s))) = k + 1
       \<and> fptr (fst (snd (EEPROM_WriteCurrentFile (opened S) s))) = length S
       \<and> fst (EEPROM_WriteCurrentFile (opened S) s) = of_nat (length S)
       \<and> f_read_calls (fst (snd (snd (EEPROM_ReadAndVerify (opened S) s)))) = k + 1
       \<and> fptr (fst (snd (snd (EEPROM_ReadAndVerify (opened S) s)))) = length S
       \<and> fst (EEPROM_ReadAndVerify (opened S) s) = of_nat (length S)
       \<and> f_read ((opened S)\<lparr>f_read_calls := k, fptr := k * BUFFER_SIZE\<rparr>) BUFFER_SIZE =
           (FR_OK, [], (opened S)\<lparr>f_read_calls := k + 1, fptr := k * BUFFER_SIZE\<rparr>)
       \<and> trace (snd (snd (EEPROM_WriteCurrentFile (opened S) s))) =
           trace s @ [Oled_display [''Writing File'', ''to EEPROM'', ''now...'', [], []]]
             @ write_mode_sequence
             @ concat (map (\<lambda>i. unlock_write_sequence (of_nat i) (S ! i)) [0..<length S])
             @ [Oled_display [''Done writing EEPROM!'', ''number of'',
                  ''Addrs:  0x'' @ format_X 5 (unat (of_nat (length S) :: u32)), [], []],
                Sleep_ms 5000]
       \<and> (\<not> write_strobe s \<longrightarrow>
            bus_log (snd (snd (EEPROM_WriteCurrentFile (opened S) s))) =
              bus_log s @ concat (map (\<lambda>i. unlock_write (of_nat i) (S ! i)) [0..<length S])
          \<and> bus_log (snd (snd (snd (EEPROM_ReadAndVerify (opened S) s)))) = bus_log s
          \<and> trace (snd (snd (snd (EEPROM_ReadAndVerify (opened S) s)))) =
              trace (setReadMode (oledDisplayMessages ''Reading file'' ''from EEPROM''
                                    ''now...'' [] [] s))
              @ concat (map (\<lambda>i. verify_sequence (of_nat i) (S ! i) (mem s (of_nat i)))
                          [0..<length S])
              @ [Oled_display [''Done reading EEPROM!'',
                   ''Addrs:  0x'' @ format_X 5 (unat (of_nat (length S) :: u32)),
                   ''Num errors:  '' @ format_d (of_nat (length
                        (filter (\<lambda>i. mem s (of_nat i) \<noteq> S ! i) [0..<length S]))),
                   [], []]])"
proof -
  have c: "f_read_calls (fst (snd (EEPROM_WriteCurrentFile (opened S) s))) = k + 1
       \<and> fptr (fst (snd (EEPROM_WriteCurrentFile (opened S) s))) = length S
       \<and> fst (EEPROM_WriteCurrentFile (opened S) s) = of_nat (length S)
       \<and> f_read_calls (fst (snd (snd (EEPROM_ReadAndVerify (opened S) s)))) = k + 1
       \<and> fptr (fst (snd (snd (EEPROM_ReadAndVerify (opened S) s)))) = length S
       \<and> fst (EEPROM_ReadAndVerify (opened S) s) = of_nat (length S)"
    using assms by (simp add: WriteCurrentFile_calls ReadAndVerify_calls BUFFER_SIZE_def)
  have e: "f_read ((opened S)\<lparr>f_read_calls := k, fptr := k * BUFFER_SIZE\<rparr>) BUFFER_SIZE =
           (FR_OK, [], (opened S)\<lparr>f_read_calls := k + 1, fptr := k * BUFFER_SIZE\<rparr>)"
    using assms(1) by (simp add: f_read_def Let_def opened_def)
  show ?thesis
    using c e WriteCurrentFile_trace [of S s] WriteCurrentFile_bus_log [of s S]
      ReadAndVerify_run(4,6) [of s S]
    by blast
qed

theorem chunk_boundary_one_more_request_witness:
  "length (replicate 2048 (0 :: u8)) = 2 * BUFFER_SIZE \<and> (0 :: nat) < 2
   \<and> \<not> write_strobe hw_after_setup
   \<and> f_read_calls (fst (snd (EEPROM_WriteCurrentFile (opened (replicate 2048 0))
        hw_after_setup))) = 3
   \<and> fst (EEPROM_WriteCurrentFile (opened (replicate 2048 0)) hw_after_setup) = 2048
   \<and> bus_log (snd (snd (EEPROM_WriteCurrentFile (opened (replicate 2048 0)) hw_after_setup))) =
       concat (map (\<lambda>i. unlock_write (of_nat i) 0) [0..<2048])"
proof -
  have l: "length (replicate 2048 (0 :: u8)) = 2 * BUFFER_SIZE" by (simp add: BUFFER_SIZE_def)
  have k: "(0 :: nat) < 2" by simp
  have i: "\<not> write_strobe hw_after_setup"
    by (simp add: hw_after_setup_def write_strobe_def)
  have b: "bus_log hw_after_setup = []" by (simp add: hw_after_setup_def)
  have m: "map (\<lambda>i. unlock_write (of_nat i) (replicate 2048 (0 :: u8) ! i))
             [0..<length (replicate 2048 (0 :: u8))] =
           map (\<lambda>i. unlock_write (of_nat i) 0) [0..<2048]"
    by (rule map_cong) simp_all
  from chunk_boundary_one_more_request [OF l k, of hw_after_setup] i
  have "f_read_calls (fst (snd (EEPROM_WriteCurrentFile (opened (replicate 2048 0))
          hw_after_setup))) = 2 + 1"
    and "fst (EEPROM_WriteCurrentFile (opened (replicate 2048 0)) hw_after_setup) =
          of_nat (length (replicate 2048 (0 :: u8)))"
    and "bus_log (snd (snd (EEPROM_WriteCurrentFile (opened (replicate 2048 0))
          hw_after_setup))) =
          bus_log hw_after_setup @ concat (map (\<lambda>i. unlock_write (of_nat i)
            (replicate 2048 (0 :: u8) ! i)) [0..<length (replicate 2048 (0 :: u8))])"
    by blast+
  then show ?thesis
    unfolding m b using l k i by simp
qed

text \<open>
  C9, as the claim states it, fails: the program loop has no guard on the cursor. On a
  stream of \<open>2^19 + 1\<close> bytes the last byte is written with address \<open>2^19 = 0x80000\<close> on
  the address lines: bit 19 is set, beyond the lines A0..A18 of the chip.
\<close>

theorem cursor_passes_max_address_counterexample:
  "last (bus_log (snd (snd (EEPROM_WriteCurrentFile (opened (replicate (2 ^ 19 + 1) 0))
       hw_after_setup)))) = (0x80000, 0)
   \<and> unat (0x80000 :: 24 word) = 2 ^ 19"
proof -
  have i: "\<not> write_strobe hw_after_setup"
    by (simp add: hw_after_setup_def write_strobe_def)
  have b: "bus_log hw_after_setup = []" by (simp add: hw_after_setup_def)
  have n: "replicate (2 ^ 19 + 1) (0 :: u8) \<noteq> []" by simp
  have "last (bus_log (snd (snd (EEPROM_WriteCurrentFile (opened (replicate (2 ^ 19 + 1) 0))
       hw_after_setup)))) =
       (ucast (of_nat (length (replicate (2 ^ 19 + 1) (0 :: u8)) - 1) :: u32),
        last (replicate (2 ^ 19 + 1) (0 :: u8)))"
    unfolding WriteCurrentFile_bus_log [OF i] b append_Nil
    by (rule last_unlock_write [OF n])
  then show ?thesis by simp
qed

text \<open>
  C9, amended. The program loop neither rejects nor wraps the cursor: from a state with no
  write cycle in progress it sends, for each position \<open>i\<close> of the stream in turn, the
  unlock prefix and then byte \<open>i\<close> to the address that the low 24 bits of \<open>i\<close> spell on
  the 24 address lines, and the final cursor is the stream length. For a stream of at
  most \<open>2^19\<close> bytes every address put on the bus is below \<open>2^19\<close>.
\<close>

theorem program_loop_addresses:
  assumes "\<not> write_strobe s"
  shows "bus_log (snd (snd (EEPROM_WriteCurrentFile (opened S) s))) =
           bus_log s @ concat (map (\<lambda>i. unlock_write (of_nat i) (S ! i)) [0..<length S])
       \<and> fst (EEPROM_WriteCurrentFile (opened S) s) = of_nat (length S)
       \<and> (length S \<le> 2 ^ 19 \<longrightarrow>
            list_all (\<lambda>(a, d). unat a < 2 ^ 19)
              (concat (map (\<lambda>i. unlock_write (of_nat i) (S ! i)) [0..<length S])))"
proof -
  have "list_all (\<lambda>(a, d). unat a < 2 ^ 19)
          (concat (map (\<lambda>i. unlock_write (of_nat i) (S ! i)) [0..<length S]))"
    if "length S \<le> 2 ^ 19"
  proof -
    have "list_all (\<lambda>(a, d). unat a < 2 ^ 19) (unlock_write (of_nat i) (S ! i))"
      if "i < length S" for i
      using that \<open>length S \<le> 2 ^ 19\<close> by (intro unlock_write_in_range) simp
    then show ?thesis
      by (simp add: list_all_iff)
  qed
  then show ?thesis
    using WriteCurrentFile_bus_log [OF assms, of S] by (simp add: WriteCurrentFile_calls)
qed

theorem program_loop_addresses_witness:
  "\<not> write_strobe hw_after_setup
   \<and> length [0x00 :: u8, 0xFF, 0x3C, 0x3C, 0x01] \<le> 2 ^ 19
   \<and> bus_log (snd (snd (EEPROM_WriteCurrentFile (opened [0x00, 0xFF, 0x3C, 0x3C, 0x01])
        hw_after_setup))) =
       unlock_write 0 0x00 @ unlock_write 1 0xFF @ unlock_write 2 0x3C @ unlock_write 3 0x3C
         @ unlock_write 4 0x01
   \<and> fst (EEPROM_WriteCurrentFile (opened [0x00, 0xFF, 0x3C, 0x3C, 0x01]) hw_after_setup) = 5"
proof -
  have i: "\<not> write_strobe hw_after_setup"
    by (simp add: hw_after_setup_def write_strobe_def)
  have b: "bus_log hw_after_setup = []" by (simp add: hw_after_setup_def)
  show ?thesis
    using program_loop_addresses [OF i, of "[0x00, 0xFF, 0x3C, 0x3C, 0x01]"] i b
    by (simp add: upt_rec)
qed

end
